theory Spec2Isabelle
  imports Main "HOL-Library.Word"
begin

section \<open>Constants and machine arithmetic of fec.h and fec.cpp\<close>

type_synonym byte = "8 word"
type_synonym uint32_t = "32 word"
type_synonym int32_t = "32 word"

text \<open>\<^verbatim>\<open>#define FEC_CHUNK_SIZE 1152\<close> and \<^verbatim>\<open>#define CM256_MAX_CHUNKS 27\<close> (fec.h).\<close>

definition FEC_CHUNK_SIZE :: nat where
  "FEC_CHUNK_SIZE = 1152"

definition CM256_MAX_CHUNKS :: nat where
  "CM256_MAX_CHUNKS = 27"

text \<open>
  Values of type \<^verbatim>\<open>size_t\<close> are natural numbers below \<open>2 ^ 64\<close>; where the source
  adds two of them the wrap-around is written out.
\<close>

definition size_t_wrap :: "nat \<Rightarrow> nat" where
  "size_t_wrap n = n mod 2 ^ 64"

text \<open>\<^verbatim>\<open>#define DIV_CEIL(a, b) (((a) + (b) - 1) / (b))\<close> on \<^verbatim>\<open>size_t\<close> operands.\<close>

definition DIV_CEIL :: "nat \<Rightarrow> nat \<Rightarrow> nat" where
  "DIV_CEIL a b = size_t_wrap (a + b - 1) div b"

text \<open>
  Every \<^verbatim>\<open>assert\<close>, every access outside a vector and every call of the coding
  primitive on a null handle is a branch of the model that returns an error.
\<close>

datatype error = AssertionFailed | OutOfBounds | NullHandle | NullKey

section \<open>The coding primitive\<close>

text \<open>
  Modelled from the spec: the external coding primitive (the \<^verbatim>\<open>wh256_*\<close> functions; their
  header and implementation are not among the sources). The spec treats it as an opaque
  collaborator, so it is a parameter of every operation that calls it: a record of
  functions over an arbitrary handle type \<open>'w\<close>. A handle is passed in and the possibly
  changed handle is returned; \<^verbatim>\<open>NULL\<close> from an init function is \<open>None\<close>; the \<^verbatim>\<open>int\<close>
  result is \<open>0\<close> for success. \<open>wh256_encoder_write\<close> and
  \<open>wh256_decoder_reconstruct_block\<close> return the bytes they wrote to the output pointer
  (for the encoder, \<^verbatim>\<open>chunk_bytes\<close> is their number).
\<close>

record 'w wh256 =
  wh256_decoder_init :: "nat \<Rightarrow> nat \<Rightarrow> 'w option"
  wh256_decoder_read :: "'w \<Rightarrow> nat \<Rightarrow> byte list \<Rightarrow> int \<times> 'w"
  wh256_decoder_reconstruct_block :: "'w \<Rightarrow> nat \<Rightarrow> int \<times> byte list \<times> 'w"
  wh256_encoder_init :: "byte list \<Rightarrow> nat \<Rightarrow> 'w option"
  wh256_encoder_write :: "'w \<Rightarrow> nat \<Rightarrow> int \<times> byte list \<times> 'w"

section \<open>FECDecoder (fec.cpp)\<close>

text \<open>
  The members that fec.cpp reads and writes. \<open>state\<close> is the \<^verbatim>\<open>wh256_state\<close> handle
  (\<open>None\<close> for \<^verbatim>\<open>NULL\<close>), \<open>tmp_chunk\<close> the scratch buffer of \<open>FEC_CHUNK_SIZE\<close> bytes.
\<close>

record 'w FECDecoder =
  tmp_chunk :: "byte list"
  chunk_count :: nat
  chunks_recvd :: nat
  chunks_sent :: nat
  decodeComplete :: bool
  chunk_recvd_flags :: "bool list"
  state :: "'w option"

text \<open>
  \<^verbatim>\<open>FECDecoder::FECDecoder(size_t data_size, size_t chunks_provided, int32_t prng_seed)\<close>.
  The constructor leaves \<open>tmp_chunk\<close> uninitialised: its first contents are the
  argument \<open>uninit\<close>. \<open>prng_seed\<close> is not used by the body.
\<close>

definition FECDecoder_init ::
  "'w wh256 \<Rightarrow> nat \<Rightarrow> nat \<Rightarrow> int32_t \<Rightarrow> byte list \<Rightarrow> error + 'w FECDecoder" where
  "FECDecoder_init cdc data_size chunks_provided prng_seed uninit =
     (let s = \<lparr>tmp_chunk = uninit,
                chunk_count = DIV_CEIL data_size FEC_CHUNK_SIZE,
                chunks_recvd = 0,
                chunks_sent = chunks_provided,
                decodeComplete = False,
                chunk_recvd_flags = replicate chunks_provided False,
                state = None\<rparr>
      in if chunk_count s < 2 then Inr s
         else (case wh256_decoder_init cdc data_size FEC_CHUNK_SIZE of
                 None \<Rightarrow> Inl AssertionFailed
               | Some w \<Rightarrow> Inr (s\<lparr>state := Some w\<rparr>)))"

text \<open>
  \<^verbatim>\<open>bool FECDecoder::ProvideChunk(const unsigned char* chunk, size_t chunk_id)\<close>.
  \<open>chunk\<close> points to \<open>FEC_CHUNK_SIZE\<close> bytes; \<^verbatim>\<open>memcpy\<close> copies that many of them.
\<close>

definition ProvideChunk ::
  "'w wh256 \<Rightarrow> 'w FECDecoder \<Rightarrow> byte list \<Rightarrow> nat \<Rightarrow> error + (bool \<times> 'w FECDecoder)" where
  "ProvideChunk cdc s chunk chunk_id =
     (if \<not> chunk_id < chunks_sent s then Inl AssertionFailed
      else if decodeComplete s then Inr (True, s)
      else if \<not> chunk_id < length (chunk_recvd_flags s) then Inl OutOfBounds
      else if chunk_recvd_flags s ! chunk_id then Inr (True, s)
      else
        (let s1 = s\<lparr>chunk_recvd_flags := (chunk_recvd_flags s)[chunk_id := True],
                     chunks_recvd := size_t_wrap (chunks_recvd s + 1)\<rparr>
         in if chunk_count s1 < 2
            then Inr (True, s1\<lparr>tmp_chunk := take FEC_CHUNK_SIZE chunk, decodeComplete := True\<rparr>)
            else (case state s1 of
                    None \<Rightarrow> Inl NullHandle
                  | Some w \<Rightarrow>
                      (case wh256_decoder_read cdc w chunk_id chunk of
                         (rc, w') \<Rightarrow>
                           if rc = 0
                           then Inr (True, s1\<lparr>state := Some w', decodeComplete := True\<rparr>)
                           else Inr (True, s1\<lparr>state := Some w'\<rparr>)))))"

text \<open>\<^verbatim>\<open>bool FECDecoder::HasChunk(size_t chunk_id)\<close>; \<^verbatim>\<open>||\<close> reads the flag only when
  the session is not complete.\<close>

definition HasChunk :: "'w FECDecoder \<Rightarrow> nat \<Rightarrow> error + bool" where
  "HasChunk s chunk_id =
     (if \<not> chunk_id < chunks_sent s then Inl AssertionFailed
      else if decodeComplete s then Inr True
      else if \<not> chunk_id < length (chunk_recvd_flags s) then Inl OutOfBounds
      else Inr (chunk_recvd_flags s ! chunk_id))"

text \<open>\<^verbatim>\<open>bool FECDecoder::DecodeReady() const\<close>.\<close>

definition DecodeReady :: "'w FECDecoder \<Rightarrow> bool" where
  "DecodeReady s = decodeComplete s"

text \<open>\<^verbatim>\<open>GetChunkCount\<close> and \<^verbatim>\<open>GetChunksRcvd\<close> (fec.h).\<close>

definition GetChunkCount :: "'w FECDecoder \<Rightarrow> nat" where
  "GetChunkCount s = chunk_count s"

definition GetChunksRcvd :: "'w FECDecoder \<Rightarrow> nat" where
  "GetChunksRcvd s = chunks_recvd s"

text \<open>
  \<^verbatim>\<open>const void* FECDecoder::GetDataPtr(size_t chunk_id)\<close>. The result is the contents of
  \<open>tmp_chunk\<close> the returned pointer refers to, with the session as the call leaves it.
\<close>

definition GetDataPtr ::
  "'w wh256 \<Rightarrow> 'w FECDecoder \<Rightarrow> nat \<Rightarrow> error + (byte list \<times> 'w FECDecoder)" where
  "GetDataPtr cdc s chunk_id =
     (if \<not> DecodeReady s then Inl AssertionFailed
      else if \<not> chunk_id < chunk_count s then Inl AssertionFailed
      else if chunk_count s \<ge> 2
      then (case state s of
              None \<Rightarrow> Inl NullHandle
            | Some w \<Rightarrow>
                (case wh256_decoder_reconstruct_block cdc w chunk_id of
                   (rc, block, w') \<Rightarrow>
                     if rc \<noteq> 0 then Inl AssertionFailed
                     else Inr (block, s\<lparr>tmp_chunk := block, state := Some w'\<rparr>)))
      else Inr (tmp_chunk s, s))"

text \<open>A caller that provides a sequence of chunks, one \<open>ProvideChunk\<close> call each,
  in the order of the list.\<close>

fun ProvideChunks ::
  "'w wh256 \<Rightarrow> 'w FECDecoder \<Rightarrow> (byte list \<times> nat) list \<Rightarrow> error + 'w FECDecoder" where
  "ProvideChunks cdc s [] = Inr s"
| "ProvideChunks cdc s ((chunk, chunk_id) # rest) =
     (case ProvideChunk cdc s chunk chunk_id of
        Inl e \<Rightarrow> Inl e
      | Inr (ok, s') \<Rightarrow> ProvideChunks cdc s' rest)"

text \<open>
  What the constructor establishes and every operation keeps: the flag vector has
  \<open>chunks_sent\<close> entries, and a session of two or more data chunks holds a codec handle.
\<close>

definition session_ok :: "'w FECDecoder \<Rightarrow> bool" where
  "session_ok s \<longleftrightarrow>
     length (chunk_recvd_flags s) = chunks_sent s \<and> (2 \<le> chunk_count s \<longrightarrow> state s \<noteq> None)"

text \<open>
  A stand-in coding primitive for concrete instances. Its handle counts the calls made on
  it: the decoder reports success once \<open>need\<close> chunks were read, the encoder writes a
  full block of the byte \<open>chunk_id + w\<close> (\<open>w\<close> the number of earlier writes) and fails
  after \<open>budget\<close> writes.
\<close>

definition counting_codec :: "nat \<Rightarrow> nat \<Rightarrow> nat wh256" where
  "counting_codec need budget =
     \<lparr>wh256_decoder_init = (\<lambda>data_size block. Some 0),
      wh256_decoder_read = (\<lambda>w chunk_id chunk. (if need \<le> w + 1 then 0 else 1, w + 1)),
      wh256_decoder_reconstruct_block = (\<lambda>w chunk_id. (0, replicate FEC_CHUNK_SIZE 0, w)),
      wh256_encoder_init = (\<lambda>data block. Some 0),
      wh256_encoder_write =
        (\<lambda>w chunk_id. (if w < budget then 0 else 1,
                        replicate FEC_CHUNK_SIZE (of_nat (chunk_id + w)), w + 1))\<rparr>"

text \<open>
  Example sessions. \<open>trivial_done\<close> is the session of a 100-byte object announced with
  three chunk ids after chunk 0 was provided.
\<close>

definition trivial_done :: "nat FECDecoder" where
  "trivial_done =
     \<lparr>tmp_chunk = replicate FEC_CHUNK_SIZE 7, chunk_count = 1, chunks_recvd = 1,
      chunks_sent = 3, decodeComplete = True,
      chunk_recvd_flags = [True, False, False], state = None\<rparr>"

text \<open>\<open>fresh_two\<close> is the new session of a 2304-byte object (two data chunks)
  announced with three chunk ids, on the stand-in codec.\<close>

definition fresh_two :: "nat FECDecoder" where
  "fresh_two =
     \<lparr>tmp_chunk = [], chunk_count = 2, chunks_recvd = 0,
      chunks_sent = 3, decodeComplete = False,
      chunk_recvd_flags = [False, False, False], state = Some 0\<rparr>"

section \<open>BlockChunkRecvdTracker (fec.h)\<close>

text \<open>\<^verbatim>\<open>struct ChunkIdIsNull\<close>: the key that marks an empty slot of the hash set.\<close>

definition ChunkIdIsNull :: "uint32_t \<Rightarrow> bool" where
  "ChunkIdIsNull elem \<longleftrightarrow> elem = 0"

text \<open>
  Modelled from the spec: \<^verbatim>\<open>open_hash_set\<close> (open_hash_set.h is not among the sources).
  The spec describes it as a sparse open-addressed set of chunk ids in which the value 0
  is reserved as the empty-slot sentinel and must never be used as an id. The model
  is the set of the stored keys, kept as a list: \<open>find_fast\<close> is the membership test,
  \<open>insert_hs\<close> returns the new set and, as \<^verbatim>\<open>.second\<close>, whether the key was newly
  inserted. The spec gives no behaviour for the reserved key, so a lookup or an insertion
  of it is the error \<open>NullKey\<close>.
\<close>

type_synonym open_hash_set = "uint32_t list"

definition find_fast :: "open_hash_set \<Rightarrow> uint32_t \<Rightarrow> error + bool" where
  "find_fast h e = (if ChunkIdIsNull e then Inl NullKey else Inr (e \<in> set h))"

definition insert_hs :: "open_hash_set \<Rightarrow> uint32_t \<Rightarrow> error + (open_hash_set \<times> bool)" where
  "insert_hs h e =
     (if ChunkIdIsNull e then Inl NullKey
      else if e \<in> set h then Inr (h, False)
      else Inr (e # h, True))"

record BlockChunkRecvdTracker =
  data_chunk_recvd_flags :: "bool list"
  fec_chunks_recvd :: open_hash_set

text \<open>
  Modelled from the spec: the constructor \<^verbatim>\<open>BlockChunkRecvdTracker(size_t data_chunks)\<close>,
  which fec.h only declares: a dense boolean array of length \<open>data_chunk_count\<close>, nothing
  recorded.
\<close>

definition BlockChunkRecvdTracker_init :: "nat \<Rightarrow> BlockChunkRecvdTracker" where
  "BlockChunkRecvdTracker_init data_chunks =
     \<lparr>data_chunk_recvd_flags = replicate data_chunks False, fec_chunks_recvd = []\<rparr>"

text \<open>\<^verbatim>\<open>inline bool CheckPresentAndMarkRecvd(uint32_t chunk_id)\<close>.\<close>

definition CheckPresentAndMarkRecvd ::
  "BlockChunkRecvdTracker \<Rightarrow> uint32_t \<Rightarrow> error + (bool \<times> BlockChunkRecvdTracker)" where
  "CheckPresentAndMarkRecvd t chunk_id =
     (if unat chunk_id < length (data_chunk_recvd_flags t)
      then (if data_chunk_recvd_flags t ! unat chunk_id then Inr (True, t)
            else Inr (False,
                   t\<lparr>data_chunk_recvd_flags :=
                       (data_chunk_recvd_flags t)[unat chunk_id := True]\<rparr>))
      else (case find_fast (fec_chunks_recvd t) chunk_id of
              Inl e \<Rightarrow> Inl e
            | Inr found \<Rightarrow>
                if found then Inr (True, t)
                else (case insert_hs (fec_chunks_recvd t) chunk_id of
                        Inl e \<Rightarrow> Inl e
                      | Inr (h, second) \<Rightarrow>
                          if \<not> second then Inr (True, t\<lparr>fec_chunks_recvd := h\<rparr>)
                          else Inr (False, t\<lparr>fec_chunks_recvd := h\<rparr>))))"

text \<open>\<^verbatim>\<open>inline bool CheckPresent(uint32_t chunk_id) const\<close>.\<close>

definition CheckPresent :: "BlockChunkRecvdTracker \<Rightarrow> uint32_t \<Rightarrow> error + bool" where
  "CheckPresent t chunk_id =
     (if unat chunk_id < length (data_chunk_recvd_flags t)
      then Inr (data_chunk_recvd_flags t ! unat chunk_id)
      else find_fast (fec_chunks_recvd t) chunk_id)"

text \<open>A caller that marks a sequence of chunk ids, one \<open>CheckPresentAndMarkRecvd\<close> call
  each, and collects the results in order.\<close>

fun MarkAll ::
  "BlockChunkRecvdTracker \<Rightarrow> uint32_t list \<Rightarrow> error + (bool list \<times> BlockChunkRecvdTracker)" where
  "MarkAll t [] = Inr ([], t)"
| "MarkAll t (chunk_id # rest) =
     (case CheckPresentAndMarkRecvd t chunk_id of
        Inl e \<Rightarrow> Inl e
      | Inr (b, t') \<Rightarrow>
          (case MarkAll t' rest of
             Inl e \<Rightarrow> Inl e
           | Inr (bs, t'') \<Rightarrow> Inr (b # bs, t'')))"

text \<open>Whether the tracker holds an id: its flag in the dense range, membership in the
  set otherwise.\<close>

definition recorded :: "BlockChunkRecvdTracker \<Rightarrow> uint32_t \<Rightarrow> bool" where
  "recorded t chunk_id \<longleftrightarrow>
     (if unat chunk_id < length (data_chunk_recvd_flags t)
      then data_chunk_recvd_flags t ! unat chunk_id
      else chunk_id \<in> set (fec_chunks_recvd t))"

section \<open>FECEncoder (fec.cpp)\<close>

text \<open>
  The members that fec.cpp reads and writes: \<open>enc_state\<close> is the member \<^verbatim>\<open>state\<close>, the
  \<^verbatim>\<open>wh256_state\<close> handle of the encoder (\<open>None\<close> for \<^verbatim>\<open>NULL\<close>); \<open>data\<close> and \<open>fec_chunks\<close>
  are the contents of the two caller-owned byte vectors the encoder points to.
  \<open>fec_chunks\<close> is a flat buffer of output slots of \<open>FEC_CHUNK_SIZE\<close> bytes each.
\<close>

record 'w FECEncoder =
  enc_state :: "'w option"
  data :: "byte list"
  fec_chunks :: "byte list"

text \<open>
  \<^verbatim>\<open>FECEncoder::FECEncoder(const std::vector<unsigned char>* dataIn, const int32_t prng_seed,
  std::vector<unsigned char>* fec_chunksIn)\<close>. \<open>prng_seed\<close> is not used by the body.
\<close>

definition FECEncoder_init ::
  "'w wh256 \<Rightarrow> byte list \<Rightarrow> int32_t \<Rightarrow> byte list \<Rightarrow> error + 'w FECEncoder" where
  "FECEncoder_init cdc dataIn prng_seed fec_chunksIn =
     (if length fec_chunksIn mod FEC_CHUNK_SIZE \<noteq> 0 then Inl AssertionFailed
      else if fec_chunksIn = [] then Inl AssertionFailed
      else if dataIn = [] then Inl AssertionFailed
      else if DIV_CEIL (length dataIn) FEC_CHUNK_SIZE < 2
      then Inr \<lparr>enc_state = None, data = dataIn, fec_chunks = fec_chunksIn\<rparr>
      else (case wh256_encoder_init cdc dataIn FEC_CHUNK_SIZE of
              None \<Rightarrow> Inl AssertionFailed
            | Some w \<Rightarrow> Inr \<lparr>enc_state = Some w, data = dataIn, fec_chunks = fec_chunksIn\<rparr>))"

text \<open>Writing \<open>bytes\<close> into a buffer from offset \<open>off\<close> on (\<^verbatim>\<open>memcpy\<close>, \<^verbatim>\<open>memset\<close> and the
  codec's write through a pointer into the buffer); the callers check that the bytes fit.\<close>

definition store_bytes :: "byte list \<Rightarrow> nat \<Rightarrow> byte list \<Rightarrow> byte list" where
  "store_bytes buf off bytes = take off buf @ bytes @ drop (off + length bytes) buf"

text \<open>The identifier of the chunk built into a slot:
  \<^verbatim>\<open>size_t chunk_id = fec_chunk_id + DIV_CEIL(data->size(), FEC_CHUNK_SIZE);\<close>.
  Both summands are at most \<open>2 ^ 64 div FEC_CHUNK_SIZE\<close>, so the sum does not wrap.\<close>

definition BuildChunk_chunk_id :: "'w FECEncoder \<Rightarrow> nat \<Rightarrow> nat" where
  "BuildChunk_chunk_id enc fec_chunk_id =
     fec_chunk_id + DIV_CEIL (length (data enc)) FEC_CHUNK_SIZE"

text \<open>
  \<^verbatim>\<open>bool FECEncoder::BuildChunk(size_t fec_chunk_id)\<close>. In the one-chunk branch the object
  is copied and the rest of the slot zeroed; an object longer than a slot (reachable only
  when \<open>DIV_CEIL\<close> wraps) would be copied past the slot. In the other branch the codec
  writes \<open>chunk_bytes\<close> bytes at the slot, a non-zero result returns \<open>false\<close> at once,
  and the rest of the slot is zeroed.
\<close>

definition BuildChunk ::
  "'w wh256 \<Rightarrow> 'w FECEncoder \<Rightarrow> nat \<Rightarrow> error + (bool \<times> 'w FECEncoder)" where
  "BuildChunk cdc enc fec_chunk_id =
     (if \<not> fec_chunk_id < length (fec_chunks enc) div FEC_CHUNK_SIZE then Inl AssertionFailed
      else if DIV_CEIL (length (data enc)) FEC_CHUNK_SIZE < 2
      then (if FEC_CHUNK_SIZE < length (data enc) then Inl OutOfBounds
            else Inr (True,
                   enc\<lparr>fec_chunks :=
                     store_bytes
                       (store_bytes (fec_chunks enc) (fec_chunk_id * FEC_CHUNK_SIZE) (data enc))
                       (fec_chunk_id * FEC_CHUNK_SIZE + length (data enc))
                       (replicate (FEC_CHUNK_SIZE - length (data enc)) 0)\<rparr>))
      else
        (let chunk_id = BuildChunk_chunk_id enc fec_chunk_id
         in case enc_state enc of
              None \<Rightarrow> Inl NullHandle
            | Some w \<Rightarrow>
                (case wh256_encoder_write cdc w chunk_id of
                   (rc, out, w') \<Rightarrow>
                     if FEC_CHUNK_SIZE < length out then Inl OutOfBounds
                     else if rc \<noteq> 0
                     then Inr (False,
                            enc\<lparr>enc_state := Some w',
                                fec_chunks :=
                                  store_bytes (fec_chunks enc)
                                    (fec_chunk_id * FEC_CHUNK_SIZE) out\<rparr>)
                     else Inr (True,
                            enc\<lparr>enc_state := Some w',
                                fec_chunks :=
                                  store_bytes
                                    (store_bytes (fec_chunks enc)
                                       (fec_chunk_id * FEC_CHUNK_SIZE) out)
                                    (fec_chunk_id * FEC_CHUNK_SIZE + length out)
                                    (replicate (FEC_CHUNK_SIZE - length out) 0)\<rparr>))))"

text \<open>The contents of output slot \<open>j\<close> of a buffer.\<close>

definition slot_bytes :: "byte list \<Rightarrow> nat \<Rightarrow> byte list" where
  "slot_bytes buf j = take FEC_CHUNK_SIZE (drop (j * FEC_CHUNK_SIZE) buf)"

text \<open>\<open>BuildChunk\<close> keeps the size of the buffer; the loop below terminates because
  of that.\<close>

lemma length_store_bytes:
  "off + length bytes \<le> length buf \<Longrightarrow> length (store_bytes buf off bytes) = length buf"
  by (simp add: store_bytes_def)

lemma BuildChunk_length:
  assumes "BuildChunk cdc enc i = Inr (ok, enc')"
  shows "length (fec_chunks enc') = length (fec_chunks enc)"
proof -
  from assms have i: "i < length (fec_chunks enc) div FEC_CHUNK_SIZE"
    by (auto simp: BuildChunk_def split: if_splits)
  then have "Suc i * FEC_CHUNK_SIZE \<le> length (fec_chunks enc)"
    by (simp add: FEC_CHUNK_SIZE_def less_eq_div_iff_mult_less_eq Suc_le_eq)
  then have fit: "i * FEC_CHUNK_SIZE + FEC_CHUNK_SIZE \<le> length (fec_chunks enc)"
    by simp
  from assms fit show ?thesis
    by (auto simp: BuildChunk_def Let_def length_store_bytes
             split: if_splits option.splits prod.splits)
qed

text \<open>The loop of \<open>BuildFECChunks\<close>:
  \<^verbatim>\<open>for (size_t i = 0; i < fec_chunks.size() / FEC_CHUNK_SIZE; i++)
    if (!enc.BuildChunk(i)) return false;
  return true;\<close>
  The result carries the contents of the caller's \<open>fec_chunks\<close> vector at the return.\<close>

function BuildFECChunks_loop ::
  "'w wh256 \<Rightarrow> 'w FECEncoder \<Rightarrow> nat \<Rightarrow> error + (bool \<times> byte list)" where
  "BuildFECChunks_loop cdc enc i =
     (if i < length (fec_chunks enc) div FEC_CHUNK_SIZE
      then (case BuildChunk cdc enc i of
              Inl e \<Rightarrow> Inl e
            | Inr (ok, enc') \<Rightarrow>
                if \<not> ok then Inr (False, fec_chunks enc')
                else BuildFECChunks_loop cdc enc' (i + 1))
      else Inr (True, fec_chunks enc))"
  by pat_completeness auto
termination
proof (relation "measure (\<lambda>(cdc, enc, i). length (fec_chunks enc) div FEC_CHUNK_SIZE - i)")
  show "wf (measure (\<lambda>(cdc, enc, i). length (fec_chunks enc) div FEC_CHUNK_SIZE - i))"
    by simp
next
  fix cdc :: "'w wh256" and enc :: "'w FECEncoder" and i x2 ok enc'
  assume "i < length (fec_chunks enc) div FEC_CHUNK_SIZE"
    and "BuildChunk cdc enc i = Inr x2" and "(ok, enc') = x2" and "\<not> \<not> ok"
  then have "length (fec_chunks enc') = length (fec_chunks enc)"
    using BuildChunk_length [of cdc enc i ok enc'] by simp
  with \<open>i < length (fec_chunks enc) div FEC_CHUNK_SIZE\<close>
  show "((cdc, enc', i + 1), (cdc, enc, i))
          \<in> measure (\<lambda>(cdc, enc, i). length (fec_chunks enc) div FEC_CHUNK_SIZE - i)"
    by simp
qed

text \<open>\<^verbatim>\<open>bool BuildFECChunks(const std::vector<unsigned char>& data, const int32_t prng_seed,
  std::vector<unsigned char>& fec_chunks)\<close>.\<close>

definition BuildFECChunks ::
  "'w wh256 \<Rightarrow> byte list \<Rightarrow> int32_t \<Rightarrow> byte list \<Rightarrow> error + (bool \<times> byte list)" where
  "BuildFECChunks cdc dataIn prng_seed fec_chunksIn =
     (case FECEncoder_init cdc dataIn prng_seed fec_chunksIn of
        Inl e \<Rightarrow> Inl e
      | Inr enc \<Rightarrow> BuildFECChunks_loop cdc enc 0)"

text \<open>
  The encoder after the slots \<open>i, i + 1, \<dots>, i + m - 1\<close> were built one after the other
  and every one of these \<open>BuildChunk\<close> calls returned \<open>true\<close>; \<open>None\<close> when one of them did
  not.
\<close>

fun slots_built :: "'w wh256 \<Rightarrow> 'w FECEncoder \<Rightarrow> nat \<Rightarrow> nat \<Rightarrow> 'w FECEncoder option" where
  "slots_built cdc enc i 0 = Some enc"
| "slots_built cdc enc i (Suc m) =
     (case BuildChunk cdc enc i of
        Inr (True, enc') \<Rightarrow> slots_built cdc enc' (Suc i) m
      | _ \<Rightarrow> None)"

text \<open>
  Example encoders on the stand-in codec, for a 2304-byte object (two data chunks) and
  three output slots: \<open>enc_new\<close> as constructed, \<open>enc_slot0\<close> after slot 0 was built.
\<close>

definition enc_new :: "nat FECEncoder" where
  "enc_new = \<lparr>enc_state = Some 0, data = replicate 2304 1, fec_chunks = replicate 3456 0\<rparr>"

definition enc_slot0 :: "nat FECEncoder" where
  "enc_slot0 = \<lparr>enc_state = Some 1, data = replicate 2304 1,
                fec_chunks = replicate 1152 2 @ replicate 2304 0\<rparr>"

text \<open>
  Modelled from the spec: the contract of the bounded systematic threshold coder, whose
  implementation is not among the sources. The spec gives it the operation
  \<^verbatim>\<open>decode_add(handle, payload, id) -> ok|insufficient\<close> and says that decoding becomes
  possible exactly when \<open>data_chunk_count\<close> distinct chunks are present, never before.
  \<open>fed S w\<close> reads: the handle \<open>w\<close> has been given exactly the chunks with the ids in
  \<open>S\<close>. A new decoder handle has been given none; adding a chunk with a new id gives a
  handle that has been given that id as well, and the result is \<open>0\<close> (ok) exactly when
  \<open>N\<close> distinct ids are then present.
\<close>

definition threshold_coder ::
  "'w wh256 \<Rightarrow> nat \<Rightarrow> nat \<Rightarrow> (nat set \<Rightarrow> 'w \<Rightarrow> bool) \<Rightarrow> bool" where
  "threshold_coder cdc data_size N fed \<longleftrightarrow>
     (\<forall>w0. wh256_decoder_init cdc data_size FEC_CHUNK_SIZE = Some w0 \<longrightarrow> fed {} w0) \<and>
     (\<forall>S w chunk_id chunk. fed S w \<and> finite S \<and> chunk_id \<notin> S \<longrightarrow>
        fed (insert chunk_id S) (snd (wh256_decoder_read cdc w chunk_id chunk)) \<and>
        (fst (wh256_decoder_read cdc w chunk_id chunk) = 0) = (N \<le> card (insert chunk_id S)))"

text \<open>
  Modelled from the spec: a coder with that contract, for concrete instances. The
  decoder handle is the list of the chunk ids it was given and it reports ok once \<open>N\<close> of
  them are distinct; the encoder's write (\<^verbatim>\<open>encode_write(handle, id) -> payload\<close>) returns a
  full block of the byte \<open>id\<close> and leaves the handle as it is.
\<close>

definition threshold_codec :: "nat \<Rightarrow> nat list wh256" where
  "threshold_codec N =
     \<lparr>wh256_decoder_init = (\<lambda>data_size block. Some []),
      wh256_decoder_read =
        (\<lambda>w chunk_id chunk.
           (if N \<le> length (remdups (chunk_id # w)) then 0 else 1, chunk_id # w)),
      wh256_decoder_reconstruct_block = (\<lambda>w chunk_id. (0, replicate FEC_CHUNK_SIZE 0, w)),
      wh256_encoder_init = (\<lambda>data block. Some []),
      wh256_encoder_write =
        (\<lambda>w chunk_id. (0, replicate FEC_CHUNK_SIZE (of_nat chunk_id), w))\<rparr>"

text \<open>
  The invariant that ties a session to the set \<open>S\<close> of chunk ids provided so far: while
  the session is not complete the flags are exactly \<open>S\<close>, the codec handle has been given
  exactly \<open>S\<close>, and \<open>S\<close> has fewer than \<open>chunk_count\<close> elements; once it is complete, \<open>S\<close>
  has at least \<open>chunk_count\<close> elements.
\<close>

definition fed_inv :: "(nat set \<Rightarrow> 'w \<Rightarrow> bool) \<Rightarrow> nat set \<Rightarrow> 'w FECDecoder \<Rightarrow> bool" where
  "fed_inv fed S s \<longleftrightarrow>
     finite S \<and> session_ok s \<and>
     (if decodeComplete s then chunk_count s \<le> card S
      else card S < chunk_count s
           \<and> (\<forall>i < chunks_sent s. chunk_recvd_flags s ! i = (i \<in> S))
           \<and> (\<exists>w. state s = Some w \<and> fed S w))"




text \<open>\<open>enc_fresh\<close> is the new encoder of a 2304-byte object (two data chunks) with three
  output slots on \<open>threshold_codec\<close>.\<close>

definition enc_fresh :: "nat list FECEncoder" where
  "enc_fresh = \<lparr>enc_state = Some [], data = replicate 2304 1, fec_chunks = replicate 3456 0\<rparr>"

section \<open>Basic facts about the decode session\<close>

lemma FECDecoder_init_ok:
  "FECDecoder_init cdc n k seed u = Inr s \<Longrightarrow> session_ok s"
  by (auto simp: FECDecoder_init_def session_ok_def Let_def split: if_splits option.splits)

lemma FECDecoder_init_fields:
  "FECDecoder_init cdc n k seed u = Inr s \<Longrightarrow>
     chunk_count s = DIV_CEIL n FEC_CHUNK_SIZE \<and> chunks_sent s = k \<and> \<not> decodeComplete s
     \<and> chunks_recvd s = 0 \<and> chunk_recvd_flags s = replicate k False"
  by (auto simp: FECDecoder_init_def Let_def split: if_splits option.splits)

lemma ProvideChunk_complete:
  "decodeComplete s \<Longrightarrow> chunk_id < chunks_sent s \<Longrightarrow>
     ProvideChunk cdc s chunk chunk_id = Inr (True, s)"
  by (simp add: ProvideChunk_def)

lemma ProvideChunk_returns:
  assumes "session_ok s" and "chunk_id < chunks_sent s"
  shows "\<exists>s'. ProvideChunk cdc s chunk chunk_id = Inr (True, s')"
  using assms
  by (auto simp: ProvideChunk_def session_ok_def Let_def split: option.splits prod.splits)

lemma ProvideChunk_session_ok:
  "ProvideChunk cdc s chunk chunk_id = Inr (r, s') \<Longrightarrow> session_ok s \<Longrightarrow> session_ok s'"
  by (auto simp: ProvideChunk_def session_ok_def Let_def
           split: if_splits option.splits prod.splits)

lemma ProvideChunk_keeps:
  "ProvideChunk cdc s chunk chunk_id = Inr (r, s') \<Longrightarrow>
     chunks_sent s' = chunks_sent s \<and> chunk_count s' = chunk_count s
     \<and> length (chunk_recvd_flags s') = length (chunk_recvd_flags s)
     \<and> (decodeComplete s \<longrightarrow> decodeComplete s')"
  by (auto simp: ProvideChunk_def Let_def split: if_splits option.splits prod.splits)

lemma ProvideChunks_complete:
  "decodeComplete s \<Longrightarrow> \<forall>p \<in> set cs. snd p < chunks_sent s \<Longrightarrow> ProvideChunks cdc s cs = Inr s"
  by (induction cs) (auto simp: ProvideChunk_complete)

lemma replicate_3_False: "replicate 3 False = [False, False, False]"
  by (simp add: numeral_3_eq_3)

lemma DIV_CEIL_100: "DIV_CEIL 100 FEC_CHUNK_SIZE = 1"
  by (simp add: DIV_CEIL_def size_t_wrap_def FEC_CHUNK_SIZE_def)

lemma trivial_done_reached:
  "FECDecoder_init (counting_codec 2 1) 100 3 0 [] = Inr s0 \<Longrightarrow>
     ProvideChunk (counting_codec 2 1) s0 (replicate FEC_CHUNK_SIZE 7) 0 = Inr (True, trivial_done)"
  by (auto simp: FECDecoder_init_def ProvideChunk_def trivial_done_def DIV_CEIL_100
        size_t_wrap_def replicate_3_False Let_def)

lemma DIV_CEIL_2304: "DIV_CEIL 2304 FEC_CHUNK_SIZE = 2"
  by (simp add: DIV_CEIL_def size_t_wrap_def FEC_CHUNK_SIZE_def)

lemma fresh_two_constructed:
  "FECDecoder_init (counting_codec need budget) 2304 3 seed [] = Inr fresh_two"
  by (simp add: FECDecoder_init_def fresh_two_def DIV_CEIL_2304 replicate_3_False
        counting_codec_def Let_def)

section \<open>Claims about the decode session\<close>

text \<open>
  C10. Completion is frozen. Once \<open>DecodeReady\<close> holds, every further \<open>ProvideChunk\<close>
  with an in-range chunk id, seen before or not, returns success and leaves the whole
  session as it was: \<open>DecodeReady\<close> stays true, the received counter does not move and no
  further flag is set. The same holds for any sequence of such calls.
\<close>

theorem completion_is_frozen:
  assumes "DecodeReady s"
    and "chunk_id < chunks_sent s"
    and "\<forall>p \<in> set cs. snd p < chunks_sent s"
  shows "ProvideChunk cdc s chunk chunk_id = Inr (True, s)
         \<and> ProvideChunks cdc s cs = Inr s
         \<and> (\<forall>i block s'. GetDataPtr cdc s i = Inr (block, s') \<longrightarrow> DecodeReady s')"
proof -
  have "\<And>i block s'. GetDataPtr cdc s i = Inr (block, s') \<Longrightarrow> DecodeReady s'"
    by (auto simp: GetDataPtr_def DecodeReady_def split: if_splits option.splits prod.splits)
  with assms show ?thesis
    by (simp add: DecodeReady_def ProvideChunk_complete ProvideChunks_complete)
qed

theorem completion_is_frozen_witness:
  "DecodeReady trivial_done \<and> 2 < chunks_sent trivial_done
   \<and> ProvideChunk (counting_codec 2 1) trivial_done (replicate FEC_CHUNK_SIZE 9) 2
       = Inr (True, trivial_done)
   \<and> ProvideChunks (counting_codec 2 1) trivial_done
       [(replicate FEC_CHUNK_SIZE 9, 1), (replicate FEC_CHUNK_SIZE 8, 2)] = Inr trivial_done
   \<and> GetChunksRcvd trivial_done = 1"
  using completion_is_frozen [of trivial_done 2
      "[(replicate FEC_CHUNK_SIZE 9, 1), (replicate FEC_CHUNK_SIZE 8, 2)]"
      "counting_codec 2 1" "replicate FEC_CHUNK_SIZE 9"]
  by (simp add: trivial_done_def DecodeReady_def GetChunksRcvd_def)

text \<open>
  C9. \<open>ProvideChunk\<close> is total success. For every session the constructor and the
  operations can produce and every chunk id below \<open>chunks_sent\<close>, the call returns, and
  returns \<open>true\<close>, whatever the codec (\<open>cdc\<close> is arbitrary, so it may accept or refuse the
  chunk), whether the id is new or seen and whether the session is complete.
\<close>

theorem ProvideChunk_always_true:
  assumes "session_ok s" and "chunk_id < chunks_sent s"
  shows "\<exists>s'. ProvideChunk cdc s chunk chunk_id = Inr (True, s') \<and> session_ok s'"
proof -
  from assms obtain s' where r: "ProvideChunk cdc s chunk chunk_id = Inr (True, s')"
    using ProvideChunk_returns by blast
  from r assms(1) have "session_ok s'"
    by (rule ProvideChunk_session_ok)
  with r show ?thesis by blast
qed

theorem ProvideChunk_always_true_witness:
  "session_ok trivial_done \<and> 1 < chunks_sent trivial_done
   \<and> (\<exists>s'. ProvideChunk (counting_codec 2 1) trivial_done [] 1 = Inr (True, s')
            \<and> session_ok s')"
  using ProvideChunk_always_true [of trivial_done 1 "counting_codec 2 1" "[]"]
  by (simp add: trivial_done_def session_ok_def)

lemma fresh_two_provide_1:
  "ProvideChunk (counting_codec 2 1) fresh_two chunk 1
     = Inr (True, fresh_two\<lparr>chunk_recvd_flags := [False, True, False],
                           chunks_recvd := 1, state := Some 1\<rparr>)"
  by (simp add: ProvideChunk_def fresh_two_def counting_codec_def size_t_wrap_def Let_def)

text \<open>
  C1. Idempotence of ingestion. A chunk id that is already recorded (its flag is set, or
  the session is complete) is a no-op returning success; and after any first
  \<open>ProvideChunk\<close> with an id, a second call with the same id (and any payload) returns
  success and leaves the session, hence \<open>GetChunksRcvd\<close>, \<open>DecodeReady\<close> and every data
  chunk \<open>GetDataPtr\<close> reconstructs, as the first call left it.
\<close>

theorem ProvideChunk_idempotent:
  assumes "session_ok s" and "chunk_id < chunks_sent s"
  shows "(chunk_recvd_flags s ! chunk_id \<or> decodeComplete s \<longrightarrow>
            ProvideChunk cdc s chunk chunk_id = Inr (True, s))
         \<and> (\<exists>s1 s2. ProvideChunk cdc s chunk chunk_id = Inr (True, s1)
               \<and> ProvideChunk cdc s1 chunk' chunk_id = Inr (True, s2)
               \<and> s2 = s1
               \<and> GetChunksRcvd s2 = GetChunksRcvd s1
               \<and> DecodeReady s2 = DecodeReady s1
               \<and> (\<forall>i. GetDataPtr cdc s2 i = GetDataPtr cdc s1 i))"
proof -
  have recorded: "ProvideChunk cdc t c chunk_id = Inr (True, t)"
    if "session_ok t" "chunk_id < chunks_sent t"
       "chunk_recvd_flags t ! chunk_id \<or> decodeComplete t" for t c
    using that by (auto simp: ProvideChunk_def session_ok_def)
  from assms obtain s1 where first: "ProvideChunk cdc s chunk chunk_id = Inr (True, s1)"
    using ProvideChunk_returns by blast
  have ok1: "session_ok s1"
    using first assms(1) by (rule ProvideChunk_session_ok)
  have sent1: "chunk_id < chunks_sent s1"
    using ProvideChunk_keeps [OF first] assms(2) by simp
  have "chunk_recvd_flags s1 ! chunk_id \<or> decodeComplete s1"
    using first assms
    by (auto simp: ProvideChunk_def session_ok_def Let_def
             split: if_splits option.splits prod.splits)
  then have "ProvideChunk cdc s1 chunk' chunk_id = Inr (True, s1)"
    using recorded ok1 sent1 by blast
  with first recorded [OF assms] show ?thesis by blast
qed

theorem ProvideChunk_idempotent_witness:
  "session_ok fresh_two \<and> 1 < chunks_sent fresh_two
   \<and> (\<exists>s1. ProvideChunk (counting_codec 2 1) fresh_two (replicate FEC_CHUNK_SIZE 5) 1
              = Inr (True, s1)
          \<and> ProvideChunk (counting_codec 2 1) s1 (replicate FEC_CHUNK_SIZE 6) 1 = Inr (True, s1)
          \<and> GetChunksRcvd s1 = 1 \<and> \<not> DecodeReady s1)"
proof -
  have a: "session_ok fresh_two" and b: "1 < chunks_sent fresh_two"
    by (simp_all add: fresh_two_def session_ok_def)
  from ProvideChunk_idempotent [OF a b, of "counting_codec 2 1" "replicate FEC_CHUNK_SIZE 5"
      "replicate FEC_CHUNK_SIZE 6"]
  obtain s1 where
    s1: "ProvideChunk (counting_codec 2 1) fresh_two (replicate FEC_CHUNK_SIZE 5) 1 = Inr (True, s1)"
    and s2: "ProvideChunk (counting_codec 2 1) s1 (replicate FEC_CHUNK_SIZE 6) 1 = Inr (True, s1)"
    by blast
  from s1 [unfolded fresh_two_provide_1] have eq: "s1 = fresh_two\<lparr>chunk_recvd_flags := [False, True, False],
                           chunks_recvd := 1, state := Some 1\<rparr>"
    by simp
  have "GetChunksRcvd s1 = 1" and "\<not> DecodeReady s1"
    by (simp_all add: eq GetChunksRcvd_def DecodeReady_def fresh_two_def)
  with a b s1 s2 show ?thesis by blast
qed

lemma ProvideChunks_returns:
  "session_ok s \<Longrightarrow> \<forall>p \<in> set cs. snd p < chunks_sent s \<Longrightarrow>
     \<exists>s'. ProvideChunks cdc s cs = Inr s' \<and> session_ok s' \<and> chunks_sent s' = chunks_sent s"
proof (induction cs arbitrary: s)
  case Nil
  then show ?case by simp
next
  case (Cons p cs)
  obtain chunk chunk_id where p: "p = (chunk, chunk_id)" by (cases p)
  with Cons.prems have "chunk_id < chunks_sent s" by simp
  with Cons.prems(1) obtain s1 where
    s1: "ProvideChunk cdc s chunk chunk_id = Inr (True, s1)"
    using ProvideChunk_returns by blast
  have ok1: "session_ok s1"
    using s1 Cons.prems(1) by (rule ProvideChunk_session_ok)
  have sent1: "chunks_sent s1 = chunks_sent s"
    using ProvideChunk_keeps [OF s1] by simp
  with Cons.prems(2) have "\<forall>q \<in> set cs. snd q < chunks_sent s1" by simp
  from Cons.IH [OF ok1 this] sent1 s1 p show ?case by simp
qed

lemma ProvideChunk_HasChunk_mono:
  "ProvideChunk cdc s chunk i = Inr (r, s') \<Longrightarrow> HasChunk s j = Inr True \<Longrightarrow>
     HasChunk s' j = Inr True"
  by (auto simp: ProvideChunk_def HasChunk_def Let_def nth_list_update
           split: if_splits option.splits prod.splits)

lemma ProvideChunks_HasChunk_mono:
  "ProvideChunks cdc s cs = Inr s' \<Longrightarrow> HasChunk s j = Inr True \<Longrightarrow> HasChunk s' j = Inr True"
proof (induction cs arbitrary: s)
  case Nil
  then show ?case by simp
next
  case (Cons p cs)
  obtain chunk chunk_id where p: "p = (chunk, chunk_id)" by (cases p)
  from Cons.prems(1) p obtain r s1 where
    s1: "ProvideChunk cdc s chunk chunk_id = Inr (r, s1)" and
    rest: "ProvideChunks cdc s1 cs = Inr s'"
    by (auto split: sum.splits)
  from ProvideChunk_HasChunk_mono [OF s1 Cons.prems(2)] Cons.IH [OF rest]
  show ?case by simp
qed

lemma ProvideChunk_HasChunk_self:
  "ProvideChunk cdc s chunk i = Inr (r, s') \<Longrightarrow> HasChunk s' i = Inr True"
  by (auto simp: ProvideChunk_def HasChunk_def Let_def
           split: if_splits option.splits prod.splits)

lemma GetDataPtr_HasChunk:
  "GetDataPtr cdc s i = Inr (block, s') \<Longrightarrow> HasChunk s' j = HasChunk s j"
  by (auto simp: GetDataPtr_def HasChunk_def split: if_splits option.splits prod.splits)

text \<open>
  C6. \<open>HasChunk\<close> semantics and monotonicity. For an in-range id, \<open>HasChunk\<close> is true
  exactly when the session is complete or the flag of the id is set. It is true right
  after \<open>ProvideChunk\<close> with that id, stays true over every later sequence of
  \<open>ProvideChunk\<close> calls and over \<open>GetDataPtr\<close>, and once \<open>DecodeReady\<close> holds it is true
  for every in-range id.
\<close>

theorem HasChunk_semantics_and_monotone:
  assumes "session_ok s" and "chunk_id < chunks_sent s"
    and "\<forall>p \<in> set cs. snd p < chunks_sent s"
  shows "HasChunk s chunk_id = Inr (DecodeReady s \<or> chunk_recvd_flags s ! chunk_id)
     \<and> (\<exists>s1 s2. ProvideChunk cdc s chunk chunk_id = Inr (True, s1)
            \<and> HasChunk s1 chunk_id = Inr True
            \<and> ProvideChunks cdc s1 cs = Inr s2
            \<and> HasChunk s2 chunk_id = Inr True)
     \<and> (HasChunk s chunk_id = Inr True \<longrightarrow>
          (\<exists>s2. ProvideChunks cdc s cs = Inr s2 \<and> HasChunk s2 chunk_id = Inr True))
     \<and> (\<forall>i block s'. GetDataPtr cdc s i = Inr (block, s') \<longrightarrow>
          HasChunk s' chunk_id = HasChunk s chunk_id)
     \<and> (DecodeReady s \<longrightarrow> (\<forall>i < chunks_sent s. HasChunk s i = Inr True))"
proof -
  have sem: "HasChunk s chunk_id = Inr (DecodeReady s \<or> chunk_recvd_flags s ! chunk_id)"
    using assms(1,2) by (simp add: HasChunk_def DecodeReady_def session_ok_def)
  from assms(1,2) obtain s1 where
    s1: "ProvideChunk cdc s chunk chunk_id = Inr (True, s1)"
    using ProvideChunk_returns by blast
  have has1: "HasChunk s1 chunk_id = Inr True"
    using s1 by (rule ProvideChunk_HasChunk_self)
  have ok1: "session_ok s1"
    using s1 assms(1) by (rule ProvideChunk_session_ok)
  have "chunks_sent s1 = chunks_sent s"
    using ProvideChunk_keeps [OF s1] by simp
  with assms(3) have "\<forall>p \<in> set cs. snd p < chunks_sent s1" by simp
  with ok1 obtain s2 where s2: "ProvideChunks cdc s1 cs = Inr s2"
    using ProvideChunks_returns by blast
  have has2: "HasChunk s2 chunk_id = Inr True"
    using s2 has1 by (rule ProvideChunks_HasChunk_mono)
  have later: "\<exists>t. ProvideChunks cdc s cs = Inr t \<and> HasChunk t chunk_id = Inr True"
    if "HasChunk s chunk_id = Inr True"
  proof -
    from assms(1,3) obtain t where t: "ProvideChunks cdc s cs = Inr t"
      using ProvideChunks_returns by blast
    from t that have "HasChunk t chunk_id = Inr True"
      by (rule ProvideChunks_HasChunk_mono)
    with t show ?thesis by blast
  qed
  have ready: "\<forall>i < chunks_sent s. HasChunk s i = Inr True" if "DecodeReady s"
    using that by (simp add: HasChunk_def DecodeReady_def)
  from sem s1 has1 s2 has2 later ready GetDataPtr_HasChunk [of cdc s]
  show ?thesis by blast
qed

theorem HasChunk_semantics_and_monotone_witness:
  "session_ok fresh_two \<and> 1 < chunks_sent fresh_two
   \<and> HasChunk fresh_two 1 = Inr False
   \<and> (\<exists>s1 s2. ProvideChunk (counting_codec 2 1) fresh_two (replicate FEC_CHUNK_SIZE 5) 1
                 = Inr (True, s1)
          \<and> HasChunk s1 1 = Inr True
          \<and> ProvideChunks (counting_codec 2 1) s1
               [(replicate FEC_CHUNK_SIZE 6, 0), (replicate FEC_CHUNK_SIZE 5, 1)] = Inr s2
          \<and> HasChunk s2 1 = Inr True)"
proof -
  have a: "session_ok fresh_two" and b: "1 < chunks_sent fresh_two"
    and c: "\<forall>p \<in> set [(replicate FEC_CHUNK_SIZE 6, 0::nat), (replicate FEC_CHUNK_SIZE 5, 1)].
               snd p < chunks_sent fresh_two"
    by (simp_all add: fresh_two_def session_ok_def)
  have d: "DecodeReady fresh_two \<or> chunk_recvd_flags fresh_two ! 1 \<longleftrightarrow> False"
    by (simp add: fresh_two_def DecodeReady_def)
  from HasChunk_semantics_and_monotone [OF a b c, of "counting_codec 2 1"
      "replicate FEC_CHUNK_SIZE 5"] a b
  show ?thesis unfolding d by blast
qed

text \<open>
  C3. Trivial-mode completion. For every object with \<open>data_chunk_count < 2\<close>, a single
  \<open>ProvideChunk\<close> with any valid chunk id on the new session returns success and makes
  \<open>DecodeReady\<close> true; and where index 0 is a data chunk of the object
  (\<open>0 < data_chunk_count\<close>, the precondition of \<open>GetDataPtr\<close>), \<open>GetDataPtr 0\<close> then returns
  exactly the \<open>FEC_CHUNK_SIZE\<close> bytes of the provided chunk and leaves the session as it
  is.
\<close>

theorem trivial_mode_completion:
  assumes "DIV_CEIL data_size FEC_CHUNK_SIZE < 2"
    and "chunk_id < chunks_provided"
    and "length chunk = FEC_CHUNK_SIZE"
  shows "\<exists>s0 s1. FECDecoder_init cdc data_size chunks_provided prng_seed uninit = Inr s0
           \<and> ProvideChunk cdc s0 chunk chunk_id = Inr (True, s1)
           \<and> DecodeReady s1
           \<and> (0 < DIV_CEIL data_size FEC_CHUNK_SIZE \<longrightarrow>
                 GetDataPtr cdc s1 0 = Inr (chunk, s1))"
proof -
  define s0 :: "'a FECDecoder" where
    "s0 = \<lparr>tmp_chunk = uninit, chunk_count = DIV_CEIL data_size FEC_CHUNK_SIZE,
           chunks_recvd = 0, chunks_sent = chunks_provided, decodeComplete = False,
           chunk_recvd_flags = replicate chunks_provided False, state = None\<rparr>"
  define s1 where
    "s1 = s0\<lparr>chunk_recvd_flags := (chunk_recvd_flags s0)[chunk_id := True],
             chunks_recvd := size_t_wrap (chunks_recvd s0 + 1),
             tmp_chunk := take FEC_CHUNK_SIZE chunk, decodeComplete := True\<rparr>"
  have init: "FECDecoder_init cdc data_size chunks_provided prng_seed uninit = Inr s0"
    using assms(1) by (simp add: FECDecoder_init_def s0_def Let_def)
  have prov: "ProvideChunk cdc s0 chunk chunk_id = Inr (True, s1)"
    using assms(1,2) by (simp add: ProvideChunk_def s0_def s1_def Let_def)
  have ready: "DecodeReady s1"
    by (simp add: DecodeReady_def s1_def)
  have tmp: "tmp_chunk s1 = chunk"
    using assms(3) by (simp add: s1_def)
  have cnt: "chunk_count s1 = DIV_CEIL data_size FEC_CHUNK_SIZE"
    by (simp add: s1_def s0_def)
  have get: "0 < DIV_CEIL data_size FEC_CHUNK_SIZE \<longrightarrow>
               GetDataPtr cdc s1 0 = Inr (chunk, s1)"
    using assms(1) ready tmp cnt by (simp add: GetDataPtr_def)
  have "ProvideChunk cdc s0 chunk chunk_id = Inr (True, s1) \<and> DecodeReady s1
          \<and> (0 < DIV_CEIL data_size FEC_CHUNK_SIZE \<longrightarrow>
                GetDataPtr cdc s1 0 = Inr (chunk, s1))"
    using prov ready get by (intro conjI)
  with init show ?thesis by (intro exI [of _ s0] exI [of _ s1] conjI) simp_all
qed

theorem trivial_mode_completion_witness:
  "DIV_CEIL 100 FEC_CHUNK_SIZE < 2 \<and> 0 < DIV_CEIL 100 FEC_CHUNK_SIZE \<and> (2::nat) < 3
   \<and> length (replicate FEC_CHUNK_SIZE (7::byte)) = FEC_CHUNK_SIZE
   \<and> (\<exists>s0 s1. FECDecoder_init (counting_codec 2 1) 100 3 0 [] = Inr s0
          \<and> ProvideChunk (counting_codec 2 1) s0 (replicate FEC_CHUNK_SIZE 7) 2 = Inr (True, s1)
          \<and> DecodeReady s1
          \<and> GetDataPtr (counting_codec 2 1) s1 0 = Inr (replicate FEC_CHUNK_SIZE 7, s1))"
proof -
  have a: "DIV_CEIL 100 FEC_CHUNK_SIZE < 2" and p: "0 < DIV_CEIL 100 FEC_CHUNK_SIZE"
    by (simp_all add: DIV_CEIL_100)
  have b: "(2::nat) < 3" by simp
  have c: "length (replicate FEC_CHUNK_SIZE (7::byte)) = FEC_CHUNK_SIZE" by simp
  from trivial_mode_completion [OF a b c, of "counting_codec 2 1" 0 "[]"] p
  have "\<exists>s0 s1. FECDecoder_init (counting_codec 2 1) 100 3 0 [] = Inr s0
          \<and> ProvideChunk (counting_codec 2 1) s0 (replicate FEC_CHUNK_SIZE 7) 2 = Inr (True, s1)
          \<and> DecodeReady s1
          \<and> GetDataPtr (counting_codec 2 1) s1 0 = Inr (replicate FEC_CHUNK_SIZE 7, s1)"
    by blast
  with a p b c show ?thesis by (intro conjI)
qed

section \<open>The chunk tracker\<close>

lemma CheckPresent_recorded:
  "unat chunk_id < length (data_chunk_recvd_flags t) \<or> chunk_id \<noteq> 0 \<Longrightarrow>
     CheckPresent t chunk_id = Inr (recorded t chunk_id)"
  by (auto simp: CheckPresent_def recorded_def find_fast_def ChunkIdIsNull_def)

lemma CheckPresentAndMarkRecvd_step:
  assumes "unat chunk_id < length (data_chunk_recvd_flags t) \<or> chunk_id \<noteq> 0"
  shows "\<exists>t'. CheckPresentAndMarkRecvd t chunk_id = Inr (recorded t chunk_id, t')
           \<and> length (data_chunk_recvd_flags t') = length (data_chunk_recvd_flags t)
           \<and> (\<forall>j. recorded t' j = (j = chunk_id \<or> recorded t j))"
proof (cases "unat chunk_id < length (data_chunk_recvd_flags t)")
  case True
  then show ?thesis
    by (auto simp: CheckPresentAndMarkRecvd_def recorded_def nth_list_update
          word_unat_eq_iff)
next
  case False
  with assms have "chunk_id \<noteq> 0" by simp
  with False show ?thesis
    by (auto simp: CheckPresentAndMarkRecvd_def recorded_def find_fast_def insert_hs_def
          ChunkIdIsNull_def)
qed

lemma MarkAll_results:
  assumes "\<forall>i \<in> set ids. unat i < length (data_chunk_recvd_flags t) \<or> i \<noteq> 0"
  shows "\<exists>bs t'. MarkAll t ids = Inr (bs, t') \<and> length bs = length ids
           \<and> (\<forall>k < length ids. bs ! k = (recorded t (ids ! k) \<or> ids ! k \<in> set (take k ids)))"
  using assms
proof (induction ids arbitrary: t)
  case Nil
  then show ?case by simp
next
  case (Cons i ids)
  from Cons.prems have vi: "unat i < length (data_chunk_recvd_flags t) \<or> i \<noteq> 0"
    by simp
  from CheckPresentAndMarkRecvd_step [OF vi] obtain t1 where
    step: "CheckPresentAndMarkRecvd t i = Inr (recorded t i, t1)" and
    len: "length (data_chunk_recvd_flags t1) = length (data_chunk_recvd_flags t)" and
    rec: "\<And>j. recorded t1 j = (j = i \<or> recorded t j)"
    by blast
  from Cons.prems len
  have "\<forall>j \<in> set ids. unat j < length (data_chunk_recvd_flags t1) \<or> j \<noteq> 0"
    by simp
  from Cons.IH [OF this] obtain bs t2 where
    rest: "MarkAll t1 ids = Inr (bs, t2)" and lbs: "length bs = length ids" and
    res: "\<And>k. k < length ids \<Longrightarrow>
            bs ! k = (recorded t1 (ids ! k) \<or> ids ! k \<in> set (take k ids))"
    by blast
  have all: "MarkAll t (i # ids) = Inr (recorded t i # bs, t2)"
    by (simp add: step rest)
  have "(recorded t i # bs) ! k =
          (recorded t ((i # ids) ! k) \<or> (i # ids) ! k \<in> set (take k (i # ids)))"
    if "k < length (i # ids)" for k
  proof (cases k)
    case 0
    then show ?thesis by simp
  next
    case (Suc m)
    with that have "m < length ids" by simp
    from res [OF this] Suc show ?thesis
      by (auto simp: rec)
  qed
  with all lbs show ?case by simp
qed

text \<open>
  C5. Tracker mark-and-check contract. Let a tracker receive any sequence of
  \<open>CheckPresentAndMarkRecvd\<close> calls whose ids are in the dense range
  (\<open>id < data_chunk_recvd_flags.size()\<close>) or in the sparse range and not the sentinel 0.
  Every call returns, and the \<open>k\<close>-th call returns \<open>true\<close> exactly when its id was
  recorded before the sequence or occurs among the earlier calls: the first call for an
  id returns \<open>false\<close>, every later call with the same id returns \<open>true\<close>.
\<close>

theorem tracker_mark_and_check:
  assumes "\<forall>i \<in> set ids. unat i < length (data_chunk_recvd_flags t) \<or> i \<noteq> 0"
  shows "\<exists>bs t'. MarkAll t ids = Inr (bs, t') \<and> length bs = length ids
           \<and> (\<forall>k < length ids.
                 bs ! k = (CheckPresent t (ids ! k) = Inr True \<or> ids ! k \<in> set (take k ids)))"
proof -
  from MarkAll_results [OF assms] obtain bs t' where
    r: "MarkAll t ids = Inr (bs, t')" "length bs = length ids" and
    res: "\<And>k. k < length ids \<Longrightarrow>
            bs ! k = (recorded t (ids ! k) \<or> ids ! k \<in> set (take k ids))"
    by blast
  have "bs ! k = (CheckPresent t (ids ! k) = Inr True \<or> ids ! k \<in> set (take k ids))"
    if "k < length ids" for k
  proof -
    from that assms
    have "unat (ids ! k) < length (data_chunk_recvd_flags t) \<or> ids ! k \<noteq> 0"
      by simp
    from CheckPresent_recorded [OF this] res [OF that] show ?thesis by simp
  qed
  with r show ?thesis by blast
qed

lemma tracker_init_2:
  "BlockChunkRecvdTracker_init 2
     = \<lparr>data_chunk_recvd_flags = [False, False], fec_chunks_recvd = []\<rparr>"
  by (simp add: BlockChunkRecvdTracker_init_def numeral_2_eq_2)

lemma mark_dense_1:
  "CheckPresentAndMarkRecvd \<lparr>data_chunk_recvd_flags = [False, False], fec_chunks_recvd = []\<rparr> 1
     = Inr (False, \<lparr>data_chunk_recvd_flags = [False, True], fec_chunks_recvd = []\<rparr>)"
  by (simp add: CheckPresentAndMarkRecvd_def)

lemma mark_sparse_7:
  "CheckPresentAndMarkRecvd \<lparr>data_chunk_recvd_flags = [False, True], fec_chunks_recvd = []\<rparr> 7
     = Inr (False, \<lparr>data_chunk_recvd_flags = [False, True], fec_chunks_recvd = [7]\<rparr>)"
  by (simp add: CheckPresentAndMarkRecvd_def find_fast_def insert_hs_def ChunkIdIsNull_def)

lemma mark_dense_1_again:
  "CheckPresentAndMarkRecvd \<lparr>data_chunk_recvd_flags = [False, True], fec_chunks_recvd = [7]\<rparr> 1
     = Inr (True, \<lparr>data_chunk_recvd_flags = [False, True], fec_chunks_recvd = [7]\<rparr>)"
  by (simp add: CheckPresentAndMarkRecvd_def)

lemma mark_sparse_7_again:
  "CheckPresentAndMarkRecvd \<lparr>data_chunk_recvd_flags = [False, True], fec_chunks_recvd = [7]\<rparr> 7
     = Inr (True, \<lparr>data_chunk_recvd_flags = [False, True], fec_chunks_recvd = [7]\<rparr>)"
  by (simp add: CheckPresentAndMarkRecvd_def find_fast_def ChunkIdIsNull_def)

lemma MarkAll_example:
  "MarkAll (BlockChunkRecvdTracker_init 2) [1, 7, 1, 7]
     = Inr ([False, False, True, True],
            \<lparr>data_chunk_recvd_flags = [False, True], fec_chunks_recvd = [7]\<rparr>)"
  by (simp add: tracker_init_2 mark_dense_1 mark_sparse_7 mark_dense_1_again
        mark_sparse_7_again)

theorem tracker_mark_and_check_witness:
  "MarkAll (BlockChunkRecvdTracker_init 2) [1, 7, 1, 7]
     = Inr ([False, False, True, True],
            \<lparr>data_chunk_recvd_flags = [False, True], fec_chunks_recvd = [7]\<rparr>)
   \<and> (\<exists>bs t'. MarkAll (BlockChunkRecvdTracker_init 2) [1, 7, 1, 7] = Inr (bs, t')
          \<and> length bs = length [1, 7, 1, 7 :: uint32_t]
          \<and> (\<forall>k < length [1, 7, 1, 7 :: uint32_t].
                bs ! k = (CheckPresent (BlockChunkRecvdTracker_init 2) ([1, 7, 1, 7] ! k) = Inr True
                          \<or> [1, 7, 1, 7 :: uint32_t] ! k \<in> set (take k [1, 7, 1, 7]))))"
proof -
  have v: "\<forall>i \<in> set [1, 7, 1, 7 :: uint32_t].
             unat i < length (data_chunk_recvd_flags (BlockChunkRecvdTracker_init 2)) \<or> i \<noteq> 0"
    by (simp add: tracker_init_2)
  from tracker_mark_and_check [OF v] MarkAll_example show ?thesis
    by (intro conjI)
qed

section \<open>Completion with a threshold coder\<close>

lemma ProvideChunk_fed_inv:
  assumes inv: "fed_inv fed S s"
    and two: "2 \<le> chunk_count s"
    and rng: "i < chunks_sent s"
    and coder: "threshold_coder cdc data_size (chunk_count s) fed"
  shows "\<exists>s'. ProvideChunk cdc s chunk i = Inr (True, s') \<and> fed_inv fed (insert i S) s'
           \<and> chunk_count s' = chunk_count s \<and> chunks_sent s' = chunks_sent s"
proof (cases "decodeComplete s")
  case True
  with inv have "chunk_count s \<le> card S" and fin: "finite S"
    by (simp_all add: fed_inv_def)
  moreover from fin have "card S \<le> card (insert i S)"
    by (simp add: card_insert_le)
  ultimately have "fed_inv fed (insert i S) s"
    using inv True by (simp add: fed_inv_def)
  with True rng show ?thesis
    by (simp add: ProvideChunk_complete)
next
  case nc: False
  from inv nc have fin: "finite S" and ok: "session_ok s"
    and lt: "card S < chunk_count s"
    and fl: "\<And>j. j < chunks_sent s \<Longrightarrow> chunk_recvd_flags s ! j = (j \<in> S)"
    and st: "\<exists>w. state s = Some w \<and> fed S w"
    by (simp_all add: fed_inv_def)
  from ok have len: "length (chunk_recvd_flags s) = chunks_sent s"
    by (simp add: session_ok_def)
  show ?thesis
  proof (cases "i \<in> S")
    case True
    then have "insert i S = S" by blast
    moreover from True fl rng have "chunk_recvd_flags s ! i" by simp
    ultimately show ?thesis
      using inv nc rng len by (simp add: ProvideChunk_def)
  next
    case False
    with fl rng have nf: "\<not> chunk_recvd_flags s ! i" by simp
    from st obtain w where w: "state s = Some w" "fed S w" by blast
    obtain rc w' where rd: "wh256_decoder_read cdc w i chunk = (rc, w')"
      by (cases "wh256_decoder_read cdc w i chunk")
    from coder w(2) fin False
    have "fed (insert i S) (snd (wh256_decoder_read cdc w i chunk))
          \<and> (fst (wh256_decoder_read cdc w i chunk) = 0) = (chunk_count s \<le> card (insert i S))"
      unfolding threshold_coder_def by blast
    with rd have fw': "fed (insert i S) w'"
      and rc: "(rc = 0) = (chunk_count s \<le> card (insert i S))"
      by simp_all
    define s1 where
      "s1 = s\<lparr>chunk_recvd_flags := (chunk_recvd_flags s)[i := True],
               chunks_recvd := size_t_wrap (chunks_recvd s + 1)\<rparr>"
    define s' where
      "s' = (if rc = 0 then s1\<lparr>state := Some w', decodeComplete := True\<rparr>
             else s1\<lparr>state := Some w'\<rparr>)"
    have prov: "ProvideChunk cdc s chunk i = Inr (True, s')"
      using nc rng len nf two w rd
      by (simp add: ProvideChunk_def s'_def s1_def Let_def)
    have flags': "\<forall>j < chunks_sent s. chunk_recvd_flags s' ! j = (j \<in> insert i S)"
    proof (intro allI impI)
      fix j
      assume j: "j < chunks_sent s"
      have "chunk_recvd_flags s' ! j = (chunk_recvd_flags s)[i := True] ! j"
        by (simp add: s'_def s1_def)
      also have "\<dots> = (if i = j then True else chunk_recvd_flags s ! j)"
        using j rng by (simp add: nth_list_update len)
      also have "\<dots> = (j \<in> insert i S)"
        using fl [OF j] by auto
      finally show "chunk_recvd_flags s' ! j = (j \<in> insert i S)" .
    qed
    have ok': "session_ok s'"
      using ok by (simp add: session_ok_def s'_def s1_def)
    have keep: "chunk_count s' = chunk_count s" "chunks_sent s' = chunks_sent s"
      by (simp_all add: s'_def s1_def)
    have fin': "finite (insert i S)"
      using fin by simp
    have "fed_inv fed (insert i S) s'"
    proof (cases "rc = 0")
      case True
      with rc have "chunk_count s \<le> card (insert i S)" by simp
      moreover from True have "decodeComplete s'" by (simp add: s'_def)
      ultimately show ?thesis
        using fin' ok' keep by (simp add: fed_inv_def)
    next
      case False
      with rc have "card (insert i S) < chunk_count s" by simp
      moreover from False nc have "\<not> decodeComplete s'" by (simp add: s'_def s1_def)
      moreover from False have "state s' = Some w'" by (simp add: s'_def)
      ultimately show ?thesis
        using fin' ok' keep flags' fw' unfolding fed_inv_def by simp
    qed
    with prov keep show ?thesis by blast
  qed
qed

lemma ProvideChunks_fed_inv:
  assumes "fed_inv fed S s"
    and "2 \<le> chunk_count s"
    and "\<forall>p \<in> set cs. snd p < chunks_sent s"
    and "threshold_coder cdc data_size (chunk_count s) fed"
  shows "\<exists>s'. ProvideChunks cdc s cs = Inr s' \<and> fed_inv fed (S \<union> snd ` set cs) s'"
  using assms
proof (induction cs arbitrary: s S)
  case Nil
  then show ?case by simp
next
  case (Cons p cs)
  obtain chunk i where p: "p = (chunk, i)" by (cases p)
  from Cons.prems p have rng: "i < chunks_sent s" by simp
  from ProvideChunk_fed_inv [OF Cons.prems(1) Cons.prems(2) rng Cons.prems(4), of chunk]
  obtain s1 where
    s1: "ProvideChunk cdc s chunk i = Inr (True, s1)" and
    inv1: "fed_inv fed (insert i S) s1" and
    cc: "chunk_count s1 = chunk_count s" and sent: "chunks_sent s1 = chunks_sent s"
    by blast
  from Cons.prems cc sent have a: "2 \<le> chunk_count s1"
    and b: "\<forall>q \<in> set cs. snd q < chunks_sent s1"
    and c: "threshold_coder cdc data_size (chunk_count s1) fed"
    by simp_all
  from Cons.IH [OF inv1 a b c] obtain s' where
    r: "ProvideChunks cdc s1 cs = Inr s'" and
    inv': "fed_inv fed (insert i S \<union> snd ` set cs) s'"
    by blast
  have "S \<union> snd ` set (p # cs) = insert i S \<union> snd ` set cs"
    using p by auto
  with r inv' s1 p show ?case by simp
qed

lemma fed_inv_ready:
  "fed_inv fed S s \<Longrightarrow> DecodeReady s = (chunk_count s \<le> card S)"
  by (auto simp: fed_inv_def DecodeReady_def split: if_splits)

lemma ProvideChunks_chunk_count:
  "ProvideChunks cdc s cs = Inr s' \<Longrightarrow> chunk_count s' = chunk_count s"
proof (induction cs arbitrary: s)
  case Nil
  then show ?case by simp
next
  case (Cons p cs)
  obtain chunk i where p: "p = (chunk, i)" by (cases p)
  from Cons.prems p obtain r s1 where
    s1: "ProvideChunk cdc s chunk i = Inr (r, s1)" and
    rest: "ProvideChunks cdc s1 cs = Inr s'"
    by (auto split: sum.splits)
  from Cons.IH [OF rest] ProvideChunk_keeps [OF s1] show ?case by simp
qed

text \<open>
  C2. Bounded-mode exactness. Take an object with \<open>2 \<le> data_chunk_count \<le> 27\<close>, a coder
  with the threshold contract, and any delivery of valid chunk ids, in any order, with
  any mix of data and repair ids and any repetitions. After every prefix of the delivery
  the session has accepted all its chunks, and \<open>DecodeReady\<close> is true exactly when the
  prefix contains at least \<open>data_chunk_count\<close> distinct ids: it becomes true with the
  \<open>data_chunk_count\<close>-th distinct id and is never true before.
\<close>

theorem bounded_mode_exactness:
  assumes "2 \<le> DIV_CEIL data_size FEC_CHUNK_SIZE"
    and "DIV_CEIL data_size FEC_CHUNK_SIZE \<le> CM256_MAX_CHUNKS"
    and "wh256_decoder_init cdc data_size FEC_CHUNK_SIZE = Some w0"
    and "threshold_coder cdc data_size (DIV_CEIL data_size FEC_CHUNK_SIZE) fed"
    and "\<forall>p \<in> set cs. snd p < chunks_provided"
  shows "\<exists>s0. FECDecoder_init cdc data_size chunks_provided prng_seed uninit = Inr s0
           \<and> (\<forall>k \<le> length cs. \<exists>s. ProvideChunks cdc s0 (take k cs) = Inr s
                 \<and> DecodeReady s
                     = (DIV_CEIL data_size FEC_CHUNK_SIZE \<le> card (snd ` set (take k cs))))"
proof -
  let ?N = "DIV_CEIL data_size FEC_CHUNK_SIZE"
  define s0 :: "'a FECDecoder" where
    "s0 = \<lparr>tmp_chunk = uninit, chunk_count = ?N,
           chunks_recvd = 0, chunks_sent = chunks_provided, decodeComplete = False,
           chunk_recvd_flags = replicate chunks_provided False, state = Some w0\<rparr>"
  have init: "FECDecoder_init cdc data_size chunks_provided prng_seed uninit = Inr s0"
    using assms(1,3) by (simp add: FECDecoder_init_def s0_def Let_def)
  have cc: "chunk_count s0 = ?N" and sent: "chunks_sent s0 = chunks_provided"
    by (simp_all add: s0_def)
  from assms(3,4) have "fed {} w0"
    unfolding threshold_coder_def by blast
  then have inv0: "fed_inv fed {} s0"
    using assms(1) by (simp add: fed_inv_def session_ok_def s0_def)
  have two: "2 \<le> chunk_count s0"
    using assms(1) cc by simp
  have coder: "threshold_coder cdc data_size (chunk_count s0) fed"
    using assms(4) cc by simp
  have "\<exists>s. ProvideChunks cdc s0 (take k cs) = Inr s
          \<and> DecodeReady s = (?N \<le> card (snd ` set (take k cs)))" for k
  proof -
    have "\<forall>p \<in> set (take k cs). snd p < chunks_sent s0"
      using assms(5) sent by (auto dest: in_set_takeD)
    from ProvideChunks_fed_inv [OF inv0 two this coder]
    obtain s where r: "ProvideChunks cdc s0 (take k cs) = Inr s"
      and inv: "fed_inv fed ({} \<union> snd ` set (take k cs)) s"
      by blast
    from ProvideChunks_chunk_count [OF r] cc have "chunk_count s = ?N" by simp
    with fed_inv_ready [OF inv] r show ?thesis by simp
  qed
  with init show ?thesis by blast
qed

lemma threshold_codec_contract:
  "threshold_coder (threshold_codec N) data_size N (\<lambda>S w. set w = S)"
  by (auto simp: threshold_coder_def threshold_codec_def length_remdups_card_conv)

lemma fresh_two_threshold:
  "FECDecoder_init (threshold_codec 2) 2304 3 seed []
     = Inr \<lparr>tmp_chunk = [], chunk_count = 2, chunks_recvd = 0, chunks_sent = 3,
            decodeComplete = False, chunk_recvd_flags = [False, False, False],
            state = Some []\<rparr>"
  by (simp add: FECDecoder_init_def DIV_CEIL_2304 replicate_3_False threshold_codec_def Let_def)

theorem bounded_mode_exactness_witness:
  "2 \<le> DIV_CEIL 2304 FEC_CHUNK_SIZE \<and> DIV_CEIL 2304 FEC_CHUNK_SIZE \<le> CM256_MAX_CHUNKS
   \<and> wh256_decoder_init (threshold_codec 2) 2304 FEC_CHUNK_SIZE = Some []
   \<and> (\<exists>s0 s2 s3. FECDecoder_init (threshold_codec 2) 2304 3 0 [] = Inr s0
          \<and> ProvideChunks (threshold_codec 2) s0
               [(replicate FEC_CHUNK_SIZE 5, 2), (replicate FEC_CHUNK_SIZE 5, 2)] = Inr s2
          \<and> \<not> DecodeReady s2
          \<and> ProvideChunks (threshold_codec 2) s0
               [(replicate FEC_CHUNK_SIZE 5, 2), (replicate FEC_CHUNK_SIZE 5, 2),
                (replicate FEC_CHUNK_SIZE 6, 0)] = Inr s3
          \<and> DecodeReady s3)"
proof -
  let ?cs = "[(replicate FEC_CHUNK_SIZE (5::byte), 2::nat), (replicate FEC_CHUNK_SIZE 5, 2),
              (replicate FEC_CHUNK_SIZE 6, 0)]"
  have a: "2 \<le> DIV_CEIL 2304 FEC_CHUNK_SIZE"
    by (simp add: DIV_CEIL_2304)
  have b: "DIV_CEIL 2304 FEC_CHUNK_SIZE \<le> CM256_MAX_CHUNKS"
    by (simp add: DIV_CEIL_2304 CM256_MAX_CHUNKS_def)
  have c: "wh256_decoder_init (threshold_codec 2) 2304 FEC_CHUNK_SIZE = Some []"
    by (simp add: threshold_codec_def)
  have d: "threshold_coder (threshold_codec 2) 2304 (DIV_CEIL 2304 FEC_CHUNK_SIZE)
             (\<lambda>S w. set w = S)"
    unfolding DIV_CEIL_2304 by (rule threshold_codec_contract)
  have e: "\<forall>p \<in> set ?cs. snd p < 3"
    by simp
  from bounded_mode_exactness [OF a b c d e, of 0 "[]"]
  obtain s0 where init: "FECDecoder_init (threshold_codec 2) 2304 3 0 [] = Inr s0"
    and all: "\<forall>k \<le> length ?cs. \<exists>s. ProvideChunks (threshold_codec 2) s0 (take k ?cs) = Inr s
                 \<and> DecodeReady s = (DIV_CEIL 2304 FEC_CHUNK_SIZE \<le> card (snd ` set (take k ?cs)))"
    by blast
  have t2: "take 2 ?cs = [(replicate FEC_CHUNK_SIZE 5, 2), (replicate FEC_CHUNK_SIZE 5, 2)]"
    and t3: "take 3 ?cs = ?cs"
    by (simp_all add: numeral_2_eq_2)
  have l2: "2 \<le> length ?cs" and l3: "3 \<le> length ?cs"
    by simp_all
  from all [rule_format, OF l2] obtain s2 where
    r2: "ProvideChunks (threshold_codec 2) s0 (take 2 ?cs) = Inr s2"
    and d2: "DecodeReady s2
               = (DIV_CEIL 2304 FEC_CHUNK_SIZE \<le> card (snd ` set (take 2 ?cs)))"
    by blast
  from all [rule_format, OF l3] obtain s3 where
    r3: "ProvideChunks (threshold_codec 2) s0 (take 3 ?cs) = Inr s3"
    and d3: "DecodeReady s3
               = (DIV_CEIL 2304 FEC_CHUNK_SIZE \<le> card (snd ` set (take 3 ?cs)))"
    by blast
  note r2 = r2 [unfolded t2] and d2 = d2 [unfolded t2] and r3 = r3 [unfolded t3]
    and d3 = d3 [unfolded t3]
  from d2 have n2: "\<not> DecodeReady s2"
    by (simp add: DIV_CEIL_2304)
  from d3 have y3: "DecodeReady s3"
    by (simp add: DIV_CEIL_2304)
  from init r2 n2 r3 y3
  have "\<exists>s0 s2 s3. FECDecoder_init (threshold_codec 2) 2304 3 0 [] = Inr s0
          \<and> ProvideChunks (threshold_codec 2) s0
               [(replicate FEC_CHUNK_SIZE 5, 2), (replicate FEC_CHUNK_SIZE 5, 2)] = Inr s2
          \<and> \<not> DecodeReady s2
          \<and> ProvideChunks (threshold_codec 2) s0 ?cs = Inr s3
          \<and> DecodeReady s3"
    by blast
  with a b c show ?thesis by (intro conjI)
qed

section \<open>Facts about the encoder\<close>

lemma nth_store_bytes:
  assumes "off + length bytes \<le> length buf" and "y < length buf"
  shows "store_bytes buf off bytes ! y =
           (if off \<le> y \<and> y < off + length bytes then bytes ! (y - off) else buf ! y)"
proof (cases "y < off")
  case True
  with assms show ?thesis
    by (simp add: store_bytes_def nth_append)
next
  case ge: False
  from assms have lt: "length (take off buf) = off" by simp
  from ge lt have tail: "store_bytes buf off bytes ! y
                           = (bytes @ drop (off + length bytes) buf) ! (y - off)"
    by (simp add: store_bytes_def nth_append)
  show ?thesis
  proof (cases "y < off + length bytes")
    case True
    with ge have "y - off < length bytes" by arith
    with tail True ge show ?thesis
      by (simp add: nth_append)
  next
    case False
    with ge have a: "\<not> y - off < length bytes" by arith
    from False ge have b: "off + length bytes + (y - off - length bytes) = y" by arith
    from a have "(bytes @ drop (off + length bytes) buf) ! (y - off)
                   = drop (off + length bytes) buf ! (y - off - length bytes)"
      by (simp add: nth_append)
    also have "\<dots> = buf ! (off + length bytes + (y - off - length bytes))"
      using assms(1) by (rule nth_drop)
    finally show ?thesis
      using tail False b by simp
  qed
qed

lemma slot_bytes_store_other:
  assumes "k * FEC_CHUNK_SIZE \<le> off"
    and "off + length bytes \<le> k * FEC_CHUNK_SIZE + FEC_CHUNK_SIZE"
    and "k * FEC_CHUNK_SIZE + FEC_CHUNK_SIZE \<le> length buf"
    and "j \<noteq> k"
  shows "slot_bytes (store_bytes buf off bytes) j = slot_bytes buf j"
proof (rule nth_equalityI)
  from assms have fit: "off + length bytes \<le> length buf" by simp
  then have len: "length (store_bytes buf off bytes) = length buf"
    by (rule length_store_bytes)
  then show "length (slot_bytes (store_bytes buf off bytes) j) = length (slot_bytes buf j)"
    by (simp add: slot_bytes_def)
  fix x
  assume "x < length (slot_bytes (store_bytes buf off bytes) j)"
  with len have "x < length buf - j * FEC_CHUNK_SIZE \<and> x < FEC_CHUNK_SIZE"
    by (simp add: slot_bytes_def)
  then have x: "x < FEC_CHUNK_SIZE" and inb: "j * FEC_CHUNK_SIZE + x < length buf"
    by arith+
  have out: "\<not> (off \<le> j * FEC_CHUNK_SIZE + x \<and> j * FEC_CHUNK_SIZE + x < off + length bytes)"
  proof (cases "j < k")
    case True
    then have "Suc j \<le> k" by simp
    then have "Suc j * FEC_CHUNK_SIZE \<le> k * FEC_CHUNK_SIZE"
      by (rule mult_le_mono1)
    with x assms(1) show ?thesis by simp
  next
    case False
    with assms(4) have "Suc k \<le> j" by simp
    then have "Suc k * FEC_CHUNK_SIZE \<le> j * FEC_CHUNK_SIZE"
      by (rule mult_le_mono1)
    with assms(2) show ?thesis by simp
  qed
  have "slot_bytes (store_bytes buf off bytes) j ! x
          = store_bytes buf off bytes ! (j * FEC_CHUNK_SIZE + x)"
    using x inb len by (simp add: slot_bytes_def)
  also have "\<dots> = buf ! (j * FEC_CHUNK_SIZE + x)"
    using nth_store_bytes [OF fit inb] out by simp
  also have "\<dots> = slot_bytes buf j ! x"
    using x inb by (simp add: slot_bytes_def)
  finally show "slot_bytes (store_bytes buf off bytes) j ! x = slot_bytes buf j ! x" .
qed

lemma slot_fits:
  assumes "i < length buf div FEC_CHUNK_SIZE"
  shows "i * FEC_CHUNK_SIZE + FEC_CHUNK_SIZE \<le> length buf"
proof -
  from assms have "Suc i * FEC_CHUNK_SIZE \<le> length buf"
    by (simp add: FEC_CHUNK_SIZE_def less_eq_div_iff_mult_less_eq Suc_le_eq)
  then show ?thesis by simp
qed

lemma BuildChunk_frame:
  assumes "BuildChunk cdc enc i = Inr (ok, enc')" and "j \<noteq> i"
  shows "slot_bytes (fec_chunks enc') j = slot_bytes (fec_chunks enc) j"
proof -
  let ?C = FEC_CHUNK_SIZE
  let ?buf = "fec_chunks enc"
  from assms(1) have i: "i < length ?buf div ?C"
    by (auto simp: BuildChunk_def split: if_splits)
  note fit = slot_fits [OF i]
  have two: "slot_bytes (store_bytes (store_bytes ?buf (i * ?C) bs) (i * ?C + length bs)
               (replicate (?C - length bs) 0)) j = slot_bytes ?buf j"
    if "length bs \<le> ?C" for bs
  proof -
    from that fit have a: "i * ?C + length bs \<le> length ?buf" by simp
    have "slot_bytes (store_bytes (store_bytes ?buf (i * ?C) bs) (i * ?C + length bs)
               (replicate (?C - length bs) 0)) j = slot_bytes (store_bytes ?buf (i * ?C) bs) j"
      using that fit assms(2) a
      by (intro slot_bytes_store_other) (simp_all add: length_store_bytes)
    also have "\<dots> = slot_bytes ?buf j"
      using that fit assms(2) by (intro slot_bytes_store_other) simp_all
    finally show ?thesis .
  qed
  have one: "slot_bytes (store_bytes ?buf (i * ?C) bs) j = slot_bytes ?buf j"
    if "length bs \<le> ?C" for bs
    using that fit assms(2) by (intro slot_bytes_store_other) simp_all
  from assms(1) show ?thesis
    by (auto simp: BuildChunk_def Let_def one two not_less
             split: if_splits option.splits prod.splits)
qed

lemma BuildChunk_data:
  "BuildChunk cdc enc i = Inr (ok, enc') \<Longrightarrow> data enc' = data enc"
  by (auto simp: BuildChunk_def Let_def split: if_splits option.splits prod.splits)


lemma BuildFECChunks_loop_true:
  "BuildFECChunks_loop cdc enc i = Inr (True, buf) \<longleftrightarrow>
     (\<exists>e. slots_built cdc enc i (length (fec_chunks enc) div FEC_CHUNK_SIZE - i) = Some e
          \<and> buf = fec_chunks e)"
proof (induction cdc enc i rule: BuildFECChunks_loop.induct)
  case (1 cdc enc i)
  let ?n = "length (fec_chunks enc) div FEC_CHUNK_SIZE"
  show ?case
  proof (cases "i < ?n")
    case False
    then show ?thesis by auto
  next
    case lt: True
    then have m: "?n - i = Suc (?n - Suc i)" by simp
    show ?thesis
    proof (cases "BuildChunk cdc enc i")
      case (Inl e)
      with lt m show ?thesis by simp
    next
      case (Inr r)
      obtain ok enc' where r: "r = (ok, enc')" by (cases r)
      show ?thesis
      proof (cases ok)
        case False
        with Inr r lt m show ?thesis by simp
      next
        case True
        from Inr r have len: "length (fec_chunks enc') = length (fec_chunks enc)"
          using BuildChunk_length by blast
        from "1.IH" [OF lt Inr r [symmetric]] True
        have "BuildFECChunks_loop cdc enc' (i + 1) = Inr (True, buf) \<longleftrightarrow>
                (\<exists>e. slots_built cdc enc' (i + 1) (?n - (i + 1)) = Some e \<and> buf = fec_chunks e)"
          by (simp add: len)
        moreover have "BuildFECChunks_loop cdc enc i = BuildFECChunks_loop cdc enc' (i + 1)"
          using lt Inr r True by simp
        moreover have "slots_built cdc enc i (?n - i) = slots_built cdc enc' (i + 1) (?n - (i + 1))"
          using m Inr r True by simp
        ultimately show ?thesis by simp
      qed
    qed
  qed
qed

lemma BuildFECChunks_loop_false:
  "BuildFECChunks_loop cdc enc i = Inr (False, buf) \<longleftrightarrow>
     (\<exists>m e1 e2. i + m < length (fec_chunks enc) div FEC_CHUNK_SIZE
          \<and> slots_built cdc enc i m = Some e1
          \<and> BuildChunk cdc e1 (i + m) = Inr (False, e2) \<and> buf = fec_chunks e2)"
proof (induction cdc enc i rule: BuildFECChunks_loop.induct)
  case (1 cdc enc i)
  let ?n = "length (fec_chunks enc) div FEC_CHUNK_SIZE"
  let ?R = "\<lambda>enc i. \<exists>m e1 e2. i + m < ?n \<and> slots_built cdc enc i m = Some e1
                \<and> BuildChunk cdc e1 (i + m) = Inr (False, e2) \<and> buf = fec_chunks e2"
  show ?case
  proof (cases "i < ?n")
    case False
    then show ?thesis by auto
  next
    case lt: True
    have split: "?R enc i \<longleftrightarrow>
        (\<exists>e2. BuildChunk cdc enc i = Inr (False, e2) \<and> buf = fec_chunks e2)
        \<or> (\<exists>enc'. BuildChunk cdc enc i = Inr (True, enc') \<and> ?R enc' (Suc i))"
    proof
      assume "?R enc i"
      then obtain m e1 e2 where h: "i + m < ?n" "slots_built cdc enc i m = Some e1"
        "BuildChunk cdc e1 (i + m) = Inr (False, e2)" "buf = fec_chunks e2"
        by blast
      show "(\<exists>e2. BuildChunk cdc enc i = Inr (False, e2) \<and> buf = fec_chunks e2)
        \<or> (\<exists>enc'. BuildChunk cdc enc i = Inr (True, enc') \<and> ?R enc' (Suc i))"
      proof (cases m)
        case 0
        with h show ?thesis by simp
      next
        case (Suc m')
        with h(2) obtain enc' where b: "BuildChunk cdc enc i = Inr (True, enc')"
          and s: "slots_built cdc enc' (Suc i) m' = Some e1"
          by (auto split: sum.splits prod.splits bool.splits)
        from h Suc s have "?R enc' (Suc i)" by auto
        with b show ?thesis by blast
      qed
    next
      assume "(\<exists>e2. BuildChunk cdc enc i = Inr (False, e2) \<and> buf = fec_chunks e2)
        \<or> (\<exists>enc'. BuildChunk cdc enc i = Inr (True, enc') \<and> ?R enc' (Suc i))"
      then show "?R enc i"
      proof
        assume "\<exists>e2. BuildChunk cdc enc i = Inr (False, e2) \<and> buf = fec_chunks e2"
        then obtain e2 where "BuildChunk cdc enc i = Inr (False, e2)" "buf = fec_chunks e2"
          by blast
        with lt have "i + 0 < ?n \<and> slots_built cdc enc i 0 = Some enc
            \<and> BuildChunk cdc enc (i + 0) = Inr (False, e2) \<and> buf = fec_chunks e2"
          by simp
        then show ?thesis by blast
      next
        assume "\<exists>enc'. BuildChunk cdc enc i = Inr (True, enc') \<and> ?R enc' (Suc i)"
        then obtain enc' m e1 e2 where b: "BuildChunk cdc enc i = Inr (True, enc')"
          and h: "Suc i + m < ?n" "slots_built cdc enc' (Suc i) m = Some e1"
            "BuildChunk cdc e1 (Suc i + m) = Inr (False, e2)" "buf = fec_chunks e2"
          by blast
        from b h have "i + Suc m < ?n \<and> slots_built cdc enc i (Suc m) = Some e1
            \<and> BuildChunk cdc e1 (i + Suc m) = Inr (False, e2) \<and> buf = fec_chunks e2"
          by simp
        then show ?thesis by blast
      qed
    qed
    show ?thesis
    proof (cases "BuildChunk cdc enc i")
      case (Inl e)
      with lt split show ?thesis by simp
    next
      case (Inr r)
      obtain ok enc' where r: "r = (ok, enc')" by (cases r)
      show ?thesis
      proof (cases ok)
        case False
        with Inr r lt split show ?thesis by auto
      next
        case True
        from Inr r have len: "length (fec_chunks enc') = length (fec_chunks enc)"
          using BuildChunk_length by blast
        from "1.IH" [OF lt Inr r [symmetric]] True
        have "BuildFECChunks_loop cdc enc' (i + 1) = Inr (False, buf) \<longleftrightarrow> ?R enc' (Suc i)"
          by (simp add: len)
        moreover have "BuildFECChunks_loop cdc enc i = BuildFECChunks_loop cdc enc' (i + 1)"
          using lt Inr r True by simp
        moreover have "?R enc i \<longleftrightarrow> ?R enc' (Suc i)"
          using split Inr r True by simp
        ultimately show ?thesis by simp
      qed
    qed
  qed
qed


lemma slots_built_prefix:
  "slots_built cdc enc i n = Some e \<Longrightarrow> k < n \<Longrightarrow>
     \<exists>a b. slots_built cdc enc i k = Some a \<and> BuildChunk cdc a (i + k) = Inr (True, b)"
proof (induction n arbitrary: enc i k)
  case 0
  then show ?case by simp
next
  case (Suc n)
  from Suc.prems(1) obtain enc' where b: "BuildChunk cdc enc i = Inr (True, enc')"
    and s: "slots_built cdc enc' (Suc i) n = Some e"
    by (auto split: sum.splits prod.splits bool.splits)
  show ?case
  proof (cases k)
    case 0
    with b show ?thesis by simp
  next
    case (Suc k')
    with Suc.prems(2) have "k' < n" by simp
    from Suc.IH [OF s this] Suc b show ?thesis by simp
  qed
qed

lemma slots_built_frame:
  "slots_built cdc enc i m = Some e \<Longrightarrow> i + m \<le> j \<Longrightarrow>
     slot_bytes (fec_chunks e) j = slot_bytes (fec_chunks enc) j"
proof (induction m arbitrary: enc i)
  case 0
  then show ?case by simp
next
  case (Suc m)
  from Suc.prems(1) obtain enc' where b: "BuildChunk cdc enc i = Inr (True, enc')"
    and s: "slots_built cdc enc' (Suc i) m = Some e"
    by (auto split: sum.splits prod.splits bool.splits)
  from Suc.prems(2) have "Suc i + m \<le> j" and "j \<noteq> i" by simp_all
  from Suc.IH [OF s this(1)] BuildChunk_frame [OF b this(2)] show ?case by simp
qed

lemma DIV_CEIL_data_2304: "DIV_CEIL (length (replicate 2304 (1::byte))) FEC_CHUNK_SIZE = 2"
  by (simp add: DIV_CEIL_2304)

lemma slots_3456: "length (replicate 3456 (0::byte)) div FEC_CHUNK_SIZE = 3"
  by (simp add: FEC_CHUNK_SIZE_def)

lemma enc_new_constructed:
  "FECEncoder_init (counting_codec need budget) (replicate 2304 1) seed (replicate 3456 0)
     = Inr enc_new"
proof -
  have "length (replicate 3456 (0::byte)) mod FEC_CHUNK_SIZE = 0"
    by (simp add: FEC_CHUNK_SIZE_def)
  moreover have "replicate 3456 (0::byte) \<noteq> []" and "replicate 2304 (1::byte) \<noteq> []"
    by simp_all
  ultimately show ?thesis
    unfolding FECEncoder_init_def
    by (simp only: DIV_CEIL_data_2304 if_False simp_thms) (simp add: counting_codec_def enc_new_def)
qed


lemma store_bytes_Nil: "store_bytes buf off [] = buf"
  by (simp add: store_bytes_def)

lemma store_new_0:
  "store_bytes (replicate 3456 0) 0 (replicate 1152 x) = replicate 1152 x @ replicate 2304 0"
  by (simp add: store_bytes_def)

lemma store_slot0_1:
  "store_bytes (replicate 1152 y @ replicate 2304 0) 1152 (replicate 1152 x)
     = replicate 1152 y @ replicate 1152 x @ replicate 1152 0"
  by (simp add: store_bytes_def)

lemma enc_slots:
  "length (fec_chunks enc_new) div FEC_CHUNK_SIZE = 3"
  "length (fec_chunks enc_slot0) div FEC_CHUNK_SIZE = 3"
  by (simp_all add: enc_new_def enc_slot0_def FEC_CHUNK_SIZE_def)

lemma enc_counts:
  "DIV_CEIL (length (data enc_new)) FEC_CHUNK_SIZE = 2"
  "DIV_CEIL (length (data enc_slot0)) FEC_CHUNK_SIZE = 2"
  by (simp_all add: enc_new_def enc_slot0_def DIV_CEIL_2304)

lemma build_new_0:
  "0 < budget \<Longrightarrow> BuildChunk (counting_codec need budget) enc_new 0 = Inr (True, enc_slot0)"
  unfolding BuildChunk_def BuildChunk_chunk_id_def enc_slots enc_counts
  by (simp add: counting_codec_def enc_new_def enc_slot0_def FEC_CHUNK_SIZE_def
        store_new_0 store_bytes_Nil)

lemma build_slot0_1_fails:
  "BuildChunk (counting_codec need 1) enc_slot0 1
     = Inr (False, \<lparr>enc_state = Some 2, data = replicate 2304 1,
                    fec_chunks = replicate 1152 2 @ replicate 1152 4 @ replicate 1152 0\<rparr>)"
  unfolding BuildChunk_def BuildChunk_chunk_id_def enc_slots enc_counts
  by (simp add: counting_codec_def enc_slot0_def FEC_CHUNK_SIZE_def store_slot0_1)

lemma FECEncoder_init_fields:
  "FECEncoder_init cdc dataIn seed fec_chunksIn = Inr enc \<Longrightarrow>
     data enc = dataIn \<and> fec_chunks enc = fec_chunksIn"
  by (auto simp: FECEncoder_init_def split: if_splits option.splits)

section \<open>Claims about the encoder\<close>

text \<open>
  C8. Batch helper all-or-fail. \<open>BuildFECChunks\<close> constructs the encoder and builds the
  slots \<open>0, 1, \<dots>\<close> in order. It returns \<open>true\<close> exactly when every one of the
  \<open>fec_chunks.size() / FEC_CHUNK_SIZE\<close> slots was built with \<open>BuildChunk\<close> returning
  \<open>true\<close>; it returns \<open>false\<close> exactly when some slot \<open>k\<close> is the first whose \<open>BuildChunk\<close>
  returns \<open>false\<close>, and then it returns the buffer as that call left it: no later slot
  is attempted, every slot after \<open>k\<close> still holds the caller's bytes.
\<close>

theorem BuildFECChunks_all_or_fail:
  assumes "FECEncoder_init cdc dataIn prng_seed fec_chunksIn = Inr enc"
  shows "((BuildFECChunks cdc dataIn prng_seed fec_chunksIn = Inr (True, buf)) =
            (\<exists>e. slots_built cdc enc 0 (length fec_chunksIn div FEC_CHUNK_SIZE) = Some e
                 \<and> buf = fec_chunks e))
     \<and> (slots_built cdc enc 0 (length fec_chunksIn div FEC_CHUNK_SIZE) = Some e \<longrightarrow>
          (\<forall>k < length fec_chunksIn div FEC_CHUNK_SIZE.
             \<exists>a b. slots_built cdc enc 0 k = Some a \<and> BuildChunk cdc a k = Inr (True, b)))
     \<and> ((BuildFECChunks cdc dataIn prng_seed fec_chunksIn = Inr (False, buf)) =
            (\<exists>k e1 e2. k < length fec_chunksIn div FEC_CHUNK_SIZE
                 \<and> slots_built cdc enc 0 k = Some e1
                 \<and> BuildChunk cdc e1 k = Inr (False, e2) \<and> buf = fec_chunks e2))
     \<and> (\<forall>k e1 e2 j. slots_built cdc enc 0 k = Some e1
            \<and> BuildChunk cdc e1 k = Inr (False, e2) \<and> k < j \<longrightarrow>
            slot_bytes (fec_chunks e2) j = slot_bytes fec_chunksIn j)"
proof -
  let ?n = "length fec_chunksIn div FEC_CHUNK_SIZE"
  from assms have fc: "fec_chunks enc = fec_chunksIn"
    using FECEncoder_init_fields by blast
  have run: "BuildFECChunks cdc dataIn prng_seed fec_chunksIn = BuildFECChunks_loop cdc enc 0"
    using assms by (simp add: BuildFECChunks_def)
  have all: "(BuildFECChunks cdc dataIn prng_seed fec_chunksIn = Inr (True, buf)) =
            (\<exists>e. slots_built cdc enc 0 ?n = Some e \<and> buf = fec_chunks e)"
    using BuildFECChunks_loop_true [of cdc enc 0 buf] by (simp add: run fc)
  have each: "\<forall>k < ?n. \<exists>a b. slots_built cdc enc 0 k = Some a
                \<and> BuildChunk cdc a k = Inr (True, b)"
    if "slots_built cdc enc 0 ?n = Some e"
    using slots_built_prefix [OF that] by simp
  have fail: "(BuildFECChunks cdc dataIn prng_seed fec_chunksIn = Inr (False, buf)) =
            (\<exists>k e1 e2. k < ?n \<and> slots_built cdc enc 0 k = Some e1
                 \<and> BuildChunk cdc e1 k = Inr (False, e2) \<and> buf = fec_chunks e2)"
    using BuildFECChunks_loop_false [of cdc enc 0 buf] by (simp add: run fc)
  have rest: "slot_bytes (fec_chunks e2) j = slot_bytes fec_chunksIn j"
    if "slots_built cdc enc 0 k = Some e1" "BuildChunk cdc e1 k = Inr (False, e2)" "k < j"
    for k e1 e2 j
  proof -
    from that(3) have "0 + k \<le> j" and "j \<noteq> k" by simp_all
    from slots_built_frame [OF that(1) this(1)] BuildChunk_frame [OF that(2) this(2)] fc
    show ?thesis by simp
  qed
  from all each fail rest show ?thesis by blast
qed

theorem BuildFECChunks_all_or_fail_witness:
  "FECEncoder_init (counting_codec 2 1) (replicate 2304 1) 0 (replicate 3456 0) = Inr enc_new
   \<and> BuildFECChunks (counting_codec 2 1) (replicate 2304 1) 0 (replicate 3456 0)
       = Inr (False, replicate 1152 2 @ replicate 1152 4 @ replicate 1152 0)
   \<and> BuildFECChunks (counting_codec 2 1) (replicate 2304 1) 0 (replicate 3456 0)
       \<noteq> Inr (True, replicate 1152 2 @ replicate 1152 4 @ replicate 1152 0)"
proof -
  note init = enc_new_constructed [of 2 1 0]
  have k: "(1::nat) < length (replicate 3456 (0::byte)) div FEC_CHUNK_SIZE"
    unfolding slots_3456 by simp
  have s: "slots_built (counting_codec 2 1) enc_new 0 1 = Some enc_slot0"
    by (simp add: build_new_0)
  from BuildFECChunks_all_or_fail [OF init,
      of "replicate 1152 2 @ replicate 1152 4 @ replicate 1152 0"]
  have "(BuildFECChunks (counting_codec 2 1) (replicate 2304 1) 0 (replicate 3456 0)
           = Inr (False, replicate 1152 2 @ replicate 1152 4 @ replicate 1152 0)) =
        (\<exists>k e1 e2. k < length (replicate 3456 (0::byte)) div FEC_CHUNK_SIZE
             \<and> slots_built (counting_codec 2 1) enc_new 0 k = Some e1
             \<and> BuildChunk (counting_codec 2 1) e1 k = Inr (False, e2)
             \<and> replicate 1152 2 @ replicate 1152 4 @ replicate 1152 0 = fec_chunks e2)"
    by blast
  moreover have "\<exists>k e1 e2. k < length (replicate 3456 (0::byte)) div FEC_CHUNK_SIZE
             \<and> slots_built (counting_codec 2 1) enc_new 0 k = Some e1
             \<and> BuildChunk (counting_codec 2 1) e1 k = Inr (False, e2)
             \<and> replicate 1152 2 @ replicate 1152 4 @ replicate 1152 0 = fec_chunks e2"
    using k s build_slot0_1_fails [of 2]
    by (intro exI [of _ 1] exI [of _ enc_slot0]
          exI [of _ "\<lparr>enc_state = Some 2, data = replicate 2304 1,
                    fec_chunks = replicate 1152 2 @ replicate 1152 4 @ replicate 1152 0\<rparr>"])
       simp
  ultimately have r: "BuildFECChunks (counting_codec 2 1) (replicate 2304 1) 0 (replicate 3456 0)
           = Inr (False, replicate 1152 2 @ replicate 1152 4 @ replicate 1152 0)"
    by blast
  then have "BuildFECChunks (counting_codec 2 1) (replicate 2304 1) 0 (replicate 3456 0)
       \<noteq> Inr (True, replicate 1152 2 @ replicate 1152 4 @ replicate 1152 0)"
    by simp
  with init r show ?thesis by (intro conjI)
qed









lemma enc_fresh_constructed:
  "FECEncoder_init (threshold_codec N) (replicate 2304 1) seed (replicate 3456 0)
     = Inr enc_fresh"
proof -
  have "length (replicate 3456 (0::byte)) mod FEC_CHUNK_SIZE = 0"
    by (simp add: FEC_CHUNK_SIZE_def)
  moreover have "replicate 3456 (0::byte) \<noteq> []" and "replicate 2304 (1::byte) \<noteq> []"
    by simp_all
  ultimately show ?thesis
    unfolding FECEncoder_init_def
    by (simp only: DIV_CEIL_data_2304 if_False simp_thms)
       (simp add: threshold_codec_def enc_fresh_def)
qed

lemma store_slot01_2:
  "store_bytes (replicate 1152 y @ replicate 1152 z @ replicate 1152 0) 2304 (replicate 1152 x)
     = replicate 1152 y @ replicate 1152 z @ replicate 1152 x"
  by (simp add: store_bytes_def)

lemma enc_fresh_count: "DIV_CEIL (length (data enc_fresh)) FEC_CHUNK_SIZE = 2"
  by (simp add: enc_fresh_def DIV_CEIL_2304)

lemma enc_fresh_ids:
  "BuildChunk_chunk_id enc_fresh 0 = 2"
  "BuildChunk_chunk_id enc_fresh 1 = 3"
  "BuildChunk_chunk_id enc_fresh 2 = 4"
  by (simp_all add: BuildChunk_chunk_id_def enc_fresh_count)

lemma fresh_build_0:
  "BuildChunk (threshold_codec N) enc_fresh 0
     = Inr (True, enc_fresh\<lparr>fec_chunks := replicate 1152 2 @ replicate 2304 0\<rparr>)"
  unfolding BuildChunk_def BuildChunk_chunk_id_def enc_fresh_count
  by (simp add: threshold_codec_def enc_fresh_def FEC_CHUNK_SIZE_def store_new_0
        store_bytes_Nil)

lemma fresh_build_1:
  "BuildChunk (threshold_codec N)
       (enc_fresh\<lparr>fec_chunks := replicate 1152 2 @ replicate 2304 0\<rparr>) 1
     = Inr (True, enc_fresh\<lparr>fec_chunks :=
                    replicate 1152 2 @ replicate 1152 3 @ replicate 1152 0\<rparr>)"
proof -
  have c: "DIV_CEIL (length (data (enc_fresh\<lparr>fec_chunks :=
              replicate 1152 2 @ replicate 2304 0\<rparr>))) FEC_CHUNK_SIZE = 2"
    by (simp add: enc_fresh_count)
  show ?thesis
    unfolding BuildChunk_def BuildChunk_chunk_id_def c
    by (simp add: threshold_codec_def enc_fresh_def FEC_CHUNK_SIZE_def store_slot0_1
          store_bytes_Nil)
qed

lemma fresh_build_2:
  "BuildChunk (threshold_codec N)
       (enc_fresh\<lparr>fec_chunks := replicate 1152 2 @ replicate 1152 3 @ replicate 1152 0\<rparr>) 2
     = Inr (True, enc_fresh\<lparr>fec_chunks :=
                    replicate 1152 2 @ replicate 1152 3 @ replicate 1152 4\<rparr>)"
proof -
  have c: "DIV_CEIL (length (data (enc_fresh\<lparr>fec_chunks :=
              replicate 1152 2 @ replicate 1152 3 @ replicate 1152 0\<rparr>))) FEC_CHUNK_SIZE = 2"
    by (simp add: enc_fresh_count)
  show ?thesis
    unfolding BuildChunk_def BuildChunk_chunk_id_def c
    by (simp add: threshold_codec_def enc_fresh_def FEC_CHUNK_SIZE_def store_slot01_2
          store_bytes_Nil)
qed



text \<open>
  C4. Repair-id assignment, at an object in the range the spec calls Bounded. For the
  2304-byte object (two data chunks, at most \<open>CM256_MAX_CHUNKS\<close>) and three output slots,
  \<open>BuildFECChunks\<close> returns \<open>true\<close> for every value of \<open>prng_seed\<close> and asks the codec for the
  identifiers 2, 3 and 4 (the codec used here fills a block with the identifier it is
  asked for): \<open>data_chunk_count\<close> plus the slot index, the same whatever the seed. The
  identifiers are at least \<open>data_chunk_count\<close> and not 0, but they are assigned
  sequentially, not at random.
\<close>

theorem BuildFECChunks_ids_ignore_prng_seed:
  "DIV_CEIL (length (replicate 2304 (1::byte))) FEC_CHUNK_SIZE = 2
   \<and> 2 \<le> CM256_MAX_CHUNKS
   \<and> BuildFECChunks (threshold_codec 2) (replicate 2304 1) prng_seed (replicate 3456 0)
       = Inr (True, replicate 1152 2 @ replicate 1152 3 @ replicate 1152 4)
   \<and> BuildChunk_chunk_id enc_fresh 0 = 2
   \<and> BuildChunk_chunk_id enc_fresh 1 = 3
   \<and> BuildChunk_chunk_id enc_fresh 2 = 4"
proof -
  have n: "length (fec_chunks enc_fresh) div FEC_CHUNK_SIZE - 0 = Suc (Suc (Suc 0))"
    by (simp add: enc_fresh_def FEC_CHUNK_SIZE_def)
  have built: "slots_built (threshold_codec 2) enc_fresh 0 (Suc (Suc (Suc 0)))
                 = Some (enc_fresh\<lparr>fec_chunks :=
                      replicate 1152 2 @ replicate 1152 3 @ replicate 1152 4\<rparr>)"
    using fresh_build_0 [of 2] fresh_build_1 [of 2] fresh_build_2 [of 2]
    by (simp add: numeral_2_eq_2)
  have "BuildFECChunks_loop (threshold_codec 2) enc_fresh 0
          = Inr (True, replicate 1152 2 @ replicate 1152 3 @ replicate 1152 4)"
    unfolding BuildFECChunks_loop_true n built by simp
  then have run: "BuildFECChunks (threshold_codec 2) (replicate 2304 1) prng_seed
                    (replicate 3456 0)
                  = Inr (True, replicate 1152 2 @ replicate 1152 3 @ replicate 1152 4)"
    by (simp add: BuildFECChunks_def enc_fresh_constructed)
  have m: "2 \<le> CM256_MAX_CHUNKS"
    by (simp add: CM256_MAX_CHUNKS_def)
  from DIV_CEIL_data_2304 m run enc_fresh_ids show ?thesis by (intro conjI)
qed

end
